theory Spec2Isabelle
  imports Main "HOL-Library.Sublist"
begin

section \<open>Errors and calls\<close>

text \<open>
  A Go \<^verbatim>\<open>error\<close> value.  \<open>Err m\<close> is an error made outside the renderer (by a hook, the
  cluster client or a library) or by \<^verbatim>\<open>fmt.Errorf\<close> without a wrapped cause;
  \<open>Wrap m e\<close> is \<^verbatim>\<open>fmt.Errorf("m: %w", e)\<close>.  A nil error is \<open>None\<close> of
  \<open>error option\<close>; a \<^verbatim>\<open>(value, error)\<close> return is \<open>error + 'a\<close>.
\<close>

datatype error = Err string | Wrap string error

text \<open>\<^verbatim>\<open>schema.GroupVersionKind\<close>, built field by field from \<^verbatim>\<open>rsc.GetGvk()\<close>.\<close>

record gvk =
  Group :: string
  Version :: string
  Kind :: string

text \<open>
  The options handed to the cluster client: \<^verbatim>\<open>client.FieldOwner(name)\<close> and
  \<^verbatim>\<open>client.ForceOwnership\<close>.  \<open>patch_type\<close> is the \<^verbatim>\<open>client.Patch\<close> argument; the
  renderer only ever passes \<^verbatim>\<open>client.Apply\<close>.
\<close>

datatype client_option = FieldOwner string | ForceOwnership

datatype patch_type = ApplyPatch | MergePatch

text \<open>
  Every fallible step of a render is written to a call log, in the order of execution and
  with its outcome: the load of the manifest source (with the tree it produced), each
  hook (with its index in its list), the read, decoding, encoding and write-back of the
  base descriptor, the composition, each conversion and each cluster call.  Object steps
  carry the position of the object in the composed list (the identity of the pointer the
  Go code passes around), steps on the virtual tree the tree they were handed.
\<close>

datatype 'fs event =
    LoadFSCall "error + 'fs"
  | FSMutatorCall nat 'fs "error option"
  | ReadFileCall 'fs string "error option"
  | UnmarshalCall "error option"
  | KMutatorCall nat "error option"
  | MarshalCall "error option"
  | WriteFileCall 'fs string string "error option"
  | KustomizeCall 'fs string "error option"
  | ConvertCall nat "error option"
  | OMutatorCall nat nat "error option"
  | PatchCall nat patch_type "client_option list" "error option"
  | CreateCall nat "client_option list" "error option"
  | PostApplyCall nat nat "error option"
  | DeleteCall nat "error option"

section \<open>Collaborators\<close>

text \<open>
  A hook is a Go closure \<^verbatim>\<open>func(context.Context, X) error\<close>: it may change the value it
  is handed (a pointer in Go), may change the world \<open>'w\<close> (the cluster, its own captured
  variables) and returns an error or nil.  The value is reachable by the hook only
  during the call.  The context is handed on unchanged by every function of the
  renderer and is left out of the model.
\<close>

type_synonym ('x, 'w) hook = "'x \<Rightarrow> 'w \<Rightarrow> error option \<times> 'x \<times> 'w"

text \<open>
  \<^verbatim>\<open>embed.FS\<close>: a read-only tree.  \<open>EmbBadFile\<close> and \<open>EmbBadDir\<close> are entries whose read
  fails, so that the error returns of \<^verbatim>\<open>ReadFile\<close> and \<^verbatim>\<open>ReadDir\<close> are branches of the model.
\<close>

datatype embed_entry =
    EmbFile string string
  | EmbDir string "embed_entry list"
  | EmbBadFile string error
  | EmbBadDir string error

fun Name :: "embed_entry \<Rightarrow> string" where
  "Name (EmbFile n _) = n"
| "Name (EmbDir n _) = n"
| "Name (EmbBadFile n _) = n"
| "Name (EmbBadDir n _) = n"

fun IsDir :: "embed_entry \<Rightarrow> bool" where
  "IsDir (EmbDir _ _) = True"
| "IsDir (EmbBadDir _ _) = True"
| "IsDir _ = False"

fun embed_ReadFile :: "embed_entry \<Rightarrow> error + string" where
  "embed_ReadFile (EmbFile _ c) = Inr c"
| "embed_ReadFile (EmbBadFile _ e) = Inl e"
| "embed_ReadFile _ = Inl (Err ''is a directory'')"

text \<open>
  The libraries the renderer calls: the kustomize in-memory file system \<open>'fs\<close>, the
  YAML and JSON codecs, the composition engine (\<^verbatim>\<open>krusty.MakeKustomizer(...).Run\<close>),
  the accessors of a composed resource \<open>'r\<close>, Go's \<^verbatim>\<open>path.Join\<close>, the type assertion
  from a \<^verbatim>\<open>runtime.Object\<close> \<open>'ro\<close> to a \<^verbatim>\<open>client.Object\<close> \<open>'o\<close>, and
  \<^verbatim>\<open>errors.IsNotFound\<close>.  They are parameters of the model.
\<close>

record ('fs, 'k, 'r, 'ro, 'o) libs =
  MakeFsInMemory :: "'fs"
  ReadFile :: "'fs \<Rightarrow> string \<Rightarrow> error + string"
  WriteFile :: "'fs \<Rightarrow> string \<Rightarrow> string \<Rightarrow> error + 'fs"
  pathJoin :: "string \<Rightarrow> string \<Rightarrow> string"
  yamlUnmarshal :: "string \<Rightarrow> error + 'k"
  yamlMarshal :: "'k \<Rightarrow> error + string"
  Run :: "'fs \<Rightarrow> string \<Rightarrow> error + 'r list"
  GetGvk :: "'r \<Rightarrow> gvk"
  AsYAML :: "'r \<Rightarrow> error + string"
  Decode :: "string \<Rightarrow> error + 'o"
  MarshalJSON :: "'r \<Rightarrow> error + string"
  jsonUnmarshal :: "string \<Rightarrow> 'ro \<Rightarrow> error + 'ro"
  asClientObject :: "'ro \<Rightarrow> 'o option"
  gvkString :: "'ro \<Rightarrow> string"
  IsNotFound :: "error \<Rightarrow> bool"

text \<open>
  \<^verbatim>\<open>client.Client\<close>: the cluster calls change the world and may change the object they are
  handed (the server's answer is decoded into it); \<^verbatim>\<open>Scheme().New\<close> is the type registry.
  \<open>DeleteObj\<close> is the method \<^verbatim>\<open>Delete\<close> of the client, renamed to keep the name for
  \<^verbatim>\<open>Renderer.Delete\<close>.
\<close>

record ('ro, 'o, 'w) client =
  Patch :: "'o \<Rightarrow> patch_type \<Rightarrow> client_option list \<Rightarrow> 'w \<Rightarrow> error option \<times> 'o \<times> 'w"
  Create :: "'o \<Rightarrow> client_option list \<Rightarrow> 'w \<Rightarrow> error option \<times> 'o \<times> 'w"
  DeleteObj :: "'o \<Rightarrow> client_option list \<Rightarrow> 'w \<Rightarrow> error option \<times> 'o \<times> 'w"
  SchemeNew :: "gvk \<Rightarrow> error + 'ro"

section \<open>The renderer\<close>

text \<open>
  The struct \<^verbatim>\<open>Renderer\<close>; \<open>from_emb\<close> is its field \<^verbatim>\<open>from\<close>.  No function of the
  package assigns to a field once \<^verbatim>\<open>NewRenderer\<close> has returned, so the functions below
  take the renderer and do not return it.
\<close>

record ('fs, 'k, 'ro, 'o, 'w) Renderer =
  cli :: "('ro, 'o, 'w) client"
  from_emb :: embed_entry
  fieldOwner :: string
  forceOwner :: bool
  unstructured :: bool
  kmutators :: "('k, 'w) hook list"
  omutators :: "('o, 'w) hook list"
  postApply :: "('o, 'w) hook list"
  fsmutators :: "('fs, 'w) hook list"

definition BaseKustomizationPath :: string where
  "BaseKustomizationPath = ''/kustomize/base/kustomization.yaml''"

subsection \<open>Options and construction\<close>

type_synonym ('fs, 'k, 'ro, 'o, 'w) Option =
  "('fs, 'k, 'ro, 'o, 'w) Renderer \<Rightarrow> ('fs, 'k, 'ro, 'o, 'w) Renderer"

definition WithFieldOwner :: "string \<Rightarrow> ('fs, 'k, 'ro, 'o, 'w) Option" where
  "WithFieldOwner owner r = r\<lparr>fieldOwner := owner\<rparr>"

definition WithForceOwnership :: "('fs, 'k, 'ro, 'o, 'w) Option" where
  "WithForceOwnership r = r\<lparr>forceOwner := True\<rparr>"

definition WithKustomizeMutator :: "('k, 'w) hook \<Rightarrow> ('fs, 'k, 'ro, 'o, 'w) Option" where
  "WithKustomizeMutator mutator r = r\<lparr>kmutators := kmutators r @ [mutator]\<rparr>"

definition WithObjectMutator :: "('o, 'w) hook \<Rightarrow> ('fs, 'k, 'ro, 'o, 'w) Option" where
  "WithObjectMutator mutator r = r\<lparr>omutators := omutators r @ [mutator]\<rparr>"

definition WithUnstructured :: "('fs, 'k, 'ro, 'o, 'w) Option" where
  "WithUnstructured r = r\<lparr>unstructured := True\<rparr>"

definition WithPostApplyAction :: "('o, 'w) hook \<Rightarrow> ('fs, 'k, 'ro, 'o, 'w) Option" where
  "WithPostApplyAction action r = r\<lparr>postApply := postApply r @ [action]\<rparr>"

definition WithFSMutator :: "('fs, 'w) hook \<Rightarrow> ('fs, 'k, 'ro, 'o, 'w) Option" where
  "WithFSMutator mutator r = r\<lparr>fsmutators := fsmutators r @ [mutator]\<rparr>"

definition NewRenderer ::
  "('ro, 'o, 'w) client \<Rightarrow> embed_entry \<Rightarrow> ('fs, 'k, 'ro, 'o, 'w) Option list
   \<Rightarrow> ('fs, 'k, 'ro, 'o, 'w) Renderer" where
  "NewRenderer c emb opts =
     fold (\<lambda>opt ctrl. opt ctrl) opts
       \<lparr>cli = c, from_emb = emb, fieldOwner = ''plumber'', forceOwner = False,
        unstructured = False, kmutators = [], omutators = [], postApply = [],
        fsmutators = []\<rparr>"

subsection \<open>Loading the manifest source\<close>

text \<open>
  \<^verbatim>\<open>readdir(dir, from, to)\<close>: \<open>readdir\<close> takes the entry of \<open>from\<close> found at \<open>dir\<close>,
  \<open>readdir_entries\<close> is its loop over the entries \<^verbatim>\<open>from.ReadDir(dir)\<close> returned.
\<close>

fun readdir :: "('fs, 'k, 'r, 'ro, 'o) libs \<Rightarrow> string \<Rightarrow> embed_entry \<Rightarrow> 'fs \<Rightarrow> error + 'fs"
and readdir_entries ::
  "('fs, 'k, 'r, 'ro, 'o) libs \<Rightarrow> string \<Rightarrow> embed_entry list \<Rightarrow> 'fs \<Rightarrow> error + 'fs" where
  "readdir L dir (EmbDir _ entries) to = readdir_entries L dir entries to"
| "readdir L dir (EmbBadDir _ e) to = Inl (Wrap ''error reading dir'' e)"
| "readdir L dir (EmbFile _ _) to = Inl (Wrap ''error reading dir'' (Err ''not a directory''))"
| "readdir L dir (EmbBadFile _ _) to = Inl (Wrap ''error reading dir'' (Err ''not a directory''))"
| "readdir_entries L dir [] to = Inr to"
| "readdir_entries L dir (entry # rest) to =
     (let path = pathJoin L dir (Name entry) in
      if IsDir entry then
        (case readdir L path entry to of
           Inl e \<Rightarrow> Inl e
         | Inr to' \<Rightarrow> readdir_entries L dir rest to')
      else
        (case embed_ReadFile entry of
           Inl e \<Rightarrow> Inl (Wrap ''error reading file'' e)
         | Inr fcontent \<Rightarrow>
             (case WriteFile L to path fcontent of
                Inl e \<Rightarrow> Inl (Wrap ''error writing file'' e)
              | Inr to' \<Rightarrow> readdir_entries L dir rest to')))"

definition LoadFS :: "('fs, 'k, 'r, 'ro, 'o) libs \<Rightarrow> embed_entry \<Rightarrow> error + 'fs" where
  "LoadFS L content =
     (case readdir L ''.'' content (MakeFsInMemory L) of
        Inl e \<Rightarrow> Inl (Wrap ''error loading embed files'' e)
      | Inr fs \<Rightarrow> Inr fs)"

subsection \<open>Running a list of hooks\<close>

text \<open>
  \<^verbatim>\<open>for _, mut := range hooks { if err := mut(ctx, x); err != nil { return ... } }\<close>,
  the loop the renderer runs over each of its four hook lists.  \<open>mk\<close> makes the log
  entry of a call, \<open>i\<close> is the index of the first hook of the list.  The caller wraps the
  error with the message of its stage.
\<close>

fun run_hooks ::
  "(nat \<Rightarrow> 'x \<Rightarrow> error option \<Rightarrow> 'ev) \<Rightarrow> nat \<Rightarrow> ('x, 'w) hook list \<Rightarrow> 'x \<Rightarrow> 'w
   \<Rightarrow> error option \<times> 'x \<times> 'w \<times> 'ev list" where
  "run_hooks mk i [] x w = (None, x, w, [])"
| "run_hooks mk i (mut # muts) x w =
     (case mut x w of
        (Some err, x', w') \<Rightarrow> (Some err, x', w', [mk i x (Some err)])
      | (None, x', w') \<Rightarrow>
          (case run_hooks mk (Suc i) muts x' w' of
             (res, x'', w'', evs) \<Rightarrow> (res, x'', w'', mk i x None # evs)))"

subsection \<open>Descriptor mutation\<close>

definition mutateKustomization ::
  "('fs, 'k, 'r, 'ro, 'o) libs \<Rightarrow> ('fs, 'k, 'ro, 'o, 'w) Renderer \<Rightarrow> 'fs \<Rightarrow> 'w
   \<Rightarrow> error option \<times> 'fs \<times> 'w \<times> 'fs event list" where
  "mutateKustomization L r fs w =
     (if length (kmutators r) = 0 then (None, fs, w, [])
      else
        (case ReadFile L fs BaseKustomizationPath of
           Inl e \<Rightarrow>
             (Some (Wrap ''error reading base kustomization'' e), fs, w,
              [ReadFileCall fs BaseKustomizationPath (Some e)])
         | Inr olddt \<Rightarrow>
             (case yamlUnmarshal L olddt of
                Inl e \<Rightarrow>
                  (Some (Wrap ''error parsing base kustomization'' e), fs, w,
                   [ReadFileCall fs BaseKustomizationPath None, UnmarshalCall (Some e)])
              | Inr kust \<Rightarrow>
                  (case run_hooks (\<lambda>i _. KMutatorCall i) 0 (kmutators r) kust w of
                     (Some e, _, w1, evs) \<Rightarrow>
                       (Some (Wrap ''error mutating kustomization'' e), fs, w1,
                        [ReadFileCall fs BaseKustomizationPath None, UnmarshalCall None] @ evs)
                   | (None, kust1, w1, evs) \<Rightarrow>
                       (case yamlMarshal L kust1 of
                          Inl e \<Rightarrow>
                            (Some (Wrap ''error marshaling base kustomization'' e), fs, w1,
                             [ReadFileCall fs BaseKustomizationPath None, UnmarshalCall None] @
                             evs @ [MarshalCall (Some e)])
                        | Inr newdt \<Rightarrow>
                            (case WriteFile L fs BaseKustomizationPath newdt of
                               Inl e \<Rightarrow>
                                 (Some (Wrap ''error writing base kustomization'' e), fs, w1,
                                  [ReadFileCall fs BaseKustomizationPath None,
                                   UnmarshalCall None] @ evs @
                                  [MarshalCall None,
                                   WriteFileCall fs BaseKustomizationPath newdt (Some e)])
                             | Inr fs' \<Rightarrow>
                                 (None, fs', w1,
                                  [ReadFileCall fs BaseKustomizationPath None,
                                   UnmarshalCall None] @ evs @
                                  [MarshalCall None,
                                   WriteFileCall fs BaseKustomizationPath newdt None])))))))"

subsection \<open>Object conversion\<close>

definition unstructuredObject :: "('fs, 'k, 'r, 'ro, 'o) libs \<Rightarrow> 'r \<Rightarrow> error + 'o" where
  "unstructuredObject L rsc =
     (case AsYAML L rsc of
        Inl e \<Rightarrow> Inl (Wrap ''error converting resource to yaml'' e)
      | Inr data \<Rightarrow>
          (case Decode L data of
             Inl e \<Rightarrow> Inl (Wrap ''error decoding unstructured object'' e)
           | Inr obj \<Rightarrow> Inr obj))"

definition typedObject ::
  "('fs, 'k, 'r, 'ro, 'o) libs \<Rightarrow> ('fs, 'k, 'ro, 'o, 'w) Renderer \<Rightarrow> 'r \<Rightarrow> error + 'o" where
  "typedObject L r rsc =
     (case SchemeNew (cli r)
             \<lparr>Group = Group (GetGvk L rsc), Version = Version (GetGvk L rsc),
              Kind = Kind (GetGvk L rsc)\<rparr> of
        Inl e \<Rightarrow> Inl (Wrap ''unable to instantiate runtime object'' e)
      | Inr runtimeobj \<Rightarrow>
          (case MarshalJSON L rsc of
             Inl e \<Rightarrow> Inl (Wrap ''error marshaling resource'' e)
           | Inr rawjson \<Rightarrow>
               (case jsonUnmarshal L rawjson runtimeobj of
                  Inl e \<Rightarrow> Inl (Wrap ''error unmarshaling into object'' e)
                | Inr runtimeobj' \<Rightarrow>
                    (case asClientObject L runtimeobj' of
                       None \<Rightarrow> Inl (Err (gvkString L runtimeobj' @ '' is not client.Object''))
                     | Some clientobj \<Rightarrow> Inr clientobj))))"

text \<open>
  The conversion loop of \<^verbatim>\<open>parse\<close>; \<open>objs\<close> is the slice built so far, \<open>j\<close> the index of
  the next resource.
\<close>

fun convert_resources ::
  "('fs, 'k, 'r, 'ro, 'o) libs \<Rightarrow> ('fs, 'k, 'ro, 'o, 'w) Renderer \<Rightarrow> nat \<Rightarrow> 'r list \<Rightarrow> 'o list
   \<Rightarrow> (error + 'o list) \<times> 'fs event list" where
  "convert_resources L r j [] objs = (Inr objs, [])"
| "convert_resources L r j (rsc # rest) objs =
     (if unstructured r then
        (case unstructuredObject L rsc of
           Inl e \<Rightarrow>
             (Inl (Wrap ''error converting type to unstructure'' e), [ConvertCall j (Some e)])
         | Inr clientobj \<Rightarrow>
             (case convert_resources L r (Suc j) rest (objs @ [clientobj]) of
                (res, evs) \<Rightarrow> (res, ConvertCall j None # evs)))
      else
        (case typedObject L r rsc of
           Inl e \<Rightarrow> (Inl e, [ConvertCall j (Some e)])
         | Inr clientobj \<Rightarrow>
             (case convert_resources L r (Suc j) rest (objs @ [clientobj]) of
                (res, evs) \<Rightarrow> (res, ConvertCall j None # evs))))"

subsection \<open>parse\<close>

definition parse ::
  "('fs, 'k, 'r, 'ro, 'o) libs \<Rightarrow> ('fs, 'k, 'ro, 'o, 'w) Renderer \<Rightarrow> string \<Rightarrow> 'w
   \<Rightarrow> (error + 'o list) \<times> 'w \<times> 'fs event list" where
  "parse L r overlay w =
     (case LoadFS L (from_emb r) of
        Inl e \<Rightarrow> (Inl (Wrap ''unable to load overlay'' e), w, [LoadFSCall (Inl e)])
      | Inr virtfs \<Rightarrow>
          (case run_hooks FSMutatorCall 0 (fsmutators r) virtfs w of
             (Some e, _, w1, evs1) \<Rightarrow>
               (Inl (Wrap ''error mutating filesystem'' e), w1, LoadFSCall (Inr virtfs) # evs1)
           | (None, fs1, w1, evs1) \<Rightarrow>
               (case mutateKustomization L r fs1 w1 of
                  (Some e, _, w2, evs2) \<Rightarrow>
                    (Inl (Wrap ''error setting object name prefix'' e), w2,
                     LoadFSCall (Inr virtfs) # evs1 @ evs2)
                | (None, fs2, w2, evs2) \<Rightarrow>
                    (case Run L fs2 (pathJoin L ''kustomize'' overlay) of
                       Inl e \<Rightarrow>
                         (Inl (Wrap ''error running kustomize'' e), w2,
                          LoadFSCall (Inr virtfs) # evs1 @ evs2 @
                          [KustomizeCall fs2 (pathJoin L ''kustomize'' overlay) (Some e)])
                     | Inr res \<Rightarrow>
                         (case convert_resources L r 0 res [] of
                            (objs, evs3) \<Rightarrow>
                              (objs, w2,
                               LoadFSCall (Inr virtfs) # evs1 @ evs2 @
                               [KustomizeCall fs2 (pathJoin L ''kustomize'' overlay) None] @
                               evs3))))))"

subsection \<open>Apply and Delete\<close>

text \<open>
  \<^verbatim>\<open>for _, obj := range objs { ... }\<close> with its early \<^verbatim>\<open>return\<close>: \<open>body j obj\<close> is one
  iteration, on the object at index \<open>j\<close>.
\<close>

fun for_objects ::
  "(nat \<Rightarrow> 'o \<Rightarrow> 'w \<Rightarrow> error option \<times> 'w \<times> 'ev list) \<Rightarrow> nat \<Rightarrow> 'o list \<Rightarrow> 'w
   \<Rightarrow> error option \<times> 'w \<times> 'ev list" where
  "for_objects body j [] w = (None, w, [])"
| "for_objects body j (obj # objs) w =
     (case body j obj w of
        (Some err, w1, evs1) \<Rightarrow> (Some err, w1, evs1)
      | (None, w1, evs1) \<Rightarrow>
          (case for_objects body (Suc j) objs w1 of
             (res, w2, evs2) \<Rightarrow> (res, w2, evs1 @ evs2)))"

definition patch_options :: "('fs, 'k, 'ro, 'o, 'w) Renderer \<Rightarrow> client_option list" where
  "patch_options r =
     (let opts = [FieldOwner (fieldOwner r)]
      in if forceOwner r then opts @ [ForceOwnership] else opts)"

text \<open>Lines 105 to 122 of \<^verbatim>\<open>Apply\<close>: the patch and its fallback.\<close>

definition submit ::
  "('fs, 'k, 'r, 'ro, 'o) libs \<Rightarrow> ('fs, 'k, 'ro, 'o, 'w) Renderer \<Rightarrow> nat \<Rightarrow> 'o \<Rightarrow> 'w
   \<Rightarrow> error option \<times> 'o \<times> 'w \<times> 'fs event list" where
  "submit L r j obj w =
     (let opts = patch_options r in
      case Patch (cli r) obj ApplyPatch opts w of
        (None, obj1, w1) \<Rightarrow> (None, obj1, w1, [PatchCall j ApplyPatch opts None])
      | (Some err, obj1, w1) \<Rightarrow>
          if \<not> IsNotFound L err then
            (Some (Wrap ''error patching object'' err), obj1, w1,
             [PatchCall j ApplyPatch opts (Some err)])
          else
            (case Create (cli r) obj1 [] w1 of
               (Some err2, obj2, w2) \<Rightarrow>
                 (Some (Wrap ''error creating object'' err2), obj2, w2,
                  [PatchCall j ApplyPatch opts (Some err), CreateCall j [] (Some err2)])
             | (None, obj2, w2) \<Rightarrow>
                 (None, obj2, w2,
                  [PatchCall j ApplyPatch opts (Some err), CreateCall j [] None])))"

text \<open>One iteration of the loop of \<^verbatim>\<open>Apply\<close>.\<close>

definition Apply_object ::
  "('fs, 'k, 'r, 'ro, 'o) libs \<Rightarrow> ('fs, 'k, 'ro, 'o, 'w) Renderer \<Rightarrow> nat \<Rightarrow> 'o \<Rightarrow> 'w
   \<Rightarrow> error option \<times> 'w \<times> 'fs event list" where
  "Apply_object L r j obj w =
     (case run_hooks (\<lambda>i _. OMutatorCall j i) 0 (omutators r) obj w of
        (Some e, _, w1, evs1) \<Rightarrow> (Some (Wrap ''error mutating object'' e), w1, evs1)
      | (None, obj1, w1, evs1) \<Rightarrow>
          (case submit L r j obj1 w1 of
             (Some e, _, w2, evs2) \<Rightarrow> (Some e, w2, evs1 @ evs2)
           | (None, obj2, w2, evs2) \<Rightarrow>
               (case run_hooks (\<lambda>i _. PostApplyCall j i) 0 (postApply r) obj2 w2 of
                  (Some e, _, w3, evs3) \<Rightarrow>
                    (Some (Wrap ''error running post apply action'' e), w3, evs1 @ evs2 @ evs3)
                | (None, _, w3, evs3) \<Rightarrow> (None, w3, evs1 @ evs2 @ evs3))))"

definition Apply ::
  "('fs, 'k, 'r, 'ro, 'o) libs \<Rightarrow> ('fs, 'k, 'ro, 'o, 'w) Renderer \<Rightarrow> string \<Rightarrow> 'w
   \<Rightarrow> error option \<times> 'w \<times> 'fs event list" where
  "Apply L r overlay w =
     (case parse L r overlay w of
        (Inl err, w1, evs1) \<Rightarrow> (Some (Wrap ''error parsing kustomize files'' err), w1, evs1)
      | (Inr objs, w1, evs1) \<Rightarrow>
          (case for_objects (Apply_object L r) 0 objs w1 of
             (res, w2, evs2) \<Rightarrow> (res, w2, evs1 @ evs2)))"

text \<open>One iteration of the loop of \<^verbatim>\<open>Delete\<close>.\<close>

definition Delete_object ::
  "('fs, 'k, 'r, 'ro, 'o) libs \<Rightarrow> ('fs, 'k, 'ro, 'o, 'w) Renderer \<Rightarrow> nat \<Rightarrow> 'o \<Rightarrow> 'w
   \<Rightarrow> error option \<times> 'w \<times> 'fs event list" where
  "Delete_object L r j obj w =
     (case run_hooks (\<lambda>i _. OMutatorCall j i) 0 (omutators r) obj w of
        (Some e, _, w1, evs1) \<Rightarrow> (Some (Wrap ''error mutating object'' e), w1, evs1)
      | (None, obj1, w1, evs1) \<Rightarrow>
          (case DeleteObj (cli r) obj1 [] w1 of
             (Some err, _, w2) \<Rightarrow>
               if IsNotFound L err then (None, w2, evs1 @ [DeleteCall j (Some err)])
               else (Some (Wrap ''error deleting object'' err), w2,
                     evs1 @ [DeleteCall j (Some err)])
           | (None, _, w2) \<Rightarrow> (None, w2, evs1 @ [DeleteCall j None])))"

definition Delete ::
  "('fs, 'k, 'r, 'ro, 'o) libs \<Rightarrow> ('fs, 'k, 'ro, 'o, 'w) Renderer \<Rightarrow> string \<Rightarrow> 'w
   \<Rightarrow> error option \<times> 'w \<times> 'fs event list" where
  "Delete L r overlay w =
     (case parse L r overlay w of
        (Inl err, w1, evs1) \<Rightarrow> (Some (Wrap ''error parsing kustomize files'' err), w1, evs1)
      | (Inr objs, w1, evs1) \<Rightarrow>
          (case for_objects (Delete_object L r) 0 objs w1 of
             (res, w2, evs2) \<Rightarrow> (res, w2, evs1 @ evs2)))"

section \<open>Reading the call log\<close>

fun is_patch :: "'fs event \<Rightarrow> bool" where
  "is_patch (PatchCall _ _ _ _) = True"
| "is_patch _ = False"

fun is_create :: "'fs event \<Rightarrow> bool" where
  "is_create (CreateCall _ _ _) = True"
| "is_create _ = False"

fun is_delete :: "'fs event \<Rightarrow> bool" where
  "is_delete (DeleteCall _ _) = True"
| "is_delete _ = False"

fun is_post_apply :: "'fs event \<Rightarrow> bool" where
  "is_post_apply (PostApplyCall _ _ _) = True"
| "is_post_apply _ = False"

text \<open>The steps of the per-object loops of \<^verbatim>\<open>Apply\<close> and \<^verbatim>\<open>Delete\<close>.\<close>

fun is_object_call :: "'fs event \<Rightarrow> bool" where
  "is_object_call (OMutatorCall _ _ _) = True"
| "is_object_call (PatchCall _ _ _ _) = True"
| "is_object_call (CreateCall _ _ _) = True"
| "is_object_call (PostApplyCall _ _ _) = True"
| "is_object_call (DeleteCall _ _) = True"
| "is_object_call _ = False"

definition is_cluster_call :: "'fs event \<Rightarrow> bool" where
  "is_cluster_call ev = (is_patch ev \<or> is_create ev \<or> is_delete ev)"

text \<open>The error a logged step ended with, \<open>None\<close> when it succeeded.\<close>

fun outcome :: "'fs event \<Rightarrow> error option" where
  "outcome (LoadFSCall (Inl e)) = Some e"
| "outcome (LoadFSCall (Inr _)) = None"
| "outcome (FSMutatorCall _ _ out) = out"
| "outcome (ReadFileCall _ _ out) = out"
| "outcome (UnmarshalCall out) = out"
| "outcome (KMutatorCall _ out) = out"
| "outcome (MarshalCall out) = out"
| "outcome (WriteFileCall _ _ _ out) = out"
| "outcome (KustomizeCall _ _ out) = out"
| "outcome (ConvertCall _ out) = out"
| "outcome (OMutatorCall _ _ out) = out"
| "outcome (PatchCall _ _ _ out) = out"
| "outcome (CreateCall _ _ out) = out"
| "outcome (PostApplyCall _ _ out) = out"
| "outcome (DeleteCall _ out) = out"

text \<open>The object (its position in the composed list) a cluster call was made for.\<close>

fun cluster_object :: "'fs event \<Rightarrow> nat option" where
  "cluster_object (PatchCall j _ _ _) = Some j"
| "cluster_object (CreateCall j _ _) = Some j"
| "cluster_object (DeleteCall j _) = Some j"
| "cluster_object _ = None"


text \<open>
  A step is fatal when it ended with an error, except for the two recoverable answers:
  a patch or a delete that the cluster answered with not-found (\<open>nf\<close> is
  \<^verbatim>\<open>errors.IsNotFound\<close>).
\<close>

definition fatal :: "(error \<Rightarrow> bool) \<Rightarrow> 'fs event \<Rightarrow> bool" where
  "fatal nf ev =
     (case outcome ev of
        None \<Rightarrow> False
      | Some e \<Rightarrow> \<not> ((is_patch ev \<or> is_delete ev) \<and> nf e))"

text \<open>
  Fail-fast, read off a log and whether the render returned an error: on success no step
  was fatal; on failure the last step of the log is fatal and no step before it is.
\<close>

definition fail_fast :: "(error \<Rightarrow> bool) \<Rightarrow> bool \<Rightarrow> 'fs event list \<Rightarrow> bool" where
  "fail_fast nf failed evs =
     (if failed
      then evs \<noteq> [] \<and> list_all (\<lambda>ev. \<not> fatal nf ev) (butlast evs) \<and> fatal nf (last evs)
      else list_all (\<lambda>ev. \<not> fatal nf ev) evs)"

text \<open>
  The submission policy, read off a log: patches are made for objects in increasing
  position, never below \<open>n\<close>; a patch that succeeded is not followed by a create; a patch
  answered with not-found is followed at once by the create of the same object; a patch
  that failed otherwise is the last entry of the log; and there is no create that does
  not follow such a patch.
\<close>

fun patch_then_create :: "(error \<Rightarrow> bool) \<Rightarrow> nat \<Rightarrow> 'fs event list \<Rightarrow> bool" where
  "patch_then_create nf n [] = True"
| "patch_then_create nf n (PatchCall j pt opts None # evs) =
     (n \<le> j \<and> patch_then_create nf (Suc j) evs)"
| "patch_then_create nf n (PatchCall j pt opts (Some e) # evs) =
     (n \<le> j \<and>
      (if nf e then
         (case evs of
            CreateCall j' _ _ # evs' \<Rightarrow> j' = j \<and> patch_then_create nf (Suc j) evs'
          | _ \<Rightarrow> False)
       else evs = []))"
| "patch_then_create nf n (CreateCall _ _ _ # evs) = False"
| "patch_then_create nf n (_ # evs) = patch_then_create nf n evs"

text \<open>
  The steps of the pipeline as the specification names them.  A create belongs to the
  submission of its object and is no step of its own.
\<close>

datatype step =
    LoadSource
  | FSHook nat
  | ReadDescriptor
  | DecodeDescriptor
  | DescriptorHook nat
  | EncodeDescriptor
  | WriteDescriptor
  | Compose
  | Convert nat
  | ObjectHook nat nat
  | Submit nat
  | PostApply nat nat
  | DeleteRequest nat

fun step_of :: "'fs event \<Rightarrow> step list" where
  "step_of (LoadFSCall _) = [LoadSource]"
| "step_of (FSMutatorCall i _ _) = [FSHook i]"
| "step_of (ReadFileCall _ _ _) = [ReadDescriptor]"
| "step_of (UnmarshalCall _) = [DecodeDescriptor]"
| "step_of (KMutatorCall i _) = [DescriptorHook i]"
| "step_of (MarshalCall _) = [EncodeDescriptor]"
| "step_of (WriteFileCall _ _ _ _) = [WriteDescriptor]"
| "step_of (KustomizeCall _ _ _) = [Compose]"
| "step_of (ConvertCall j _) = [Convert j]"
| "step_of (OMutatorCall j i _) = [ObjectHook j i]"
| "step_of (PatchCall j _ _ _) = [Submit j]"
| "step_of (CreateCall _ _ _) = []"
| "step_of (PostApplyCall j i _) = [PostApply j i]"
| "step_of (DeleteCall j _) = [DeleteRequest j]"

definition steps :: "'fs event list \<Rightarrow> step list" where
  "steps evs = concat (map step_of evs)"







text \<open>
  A log \<open>xs\<close> follows a schedule when it is an initial part of it, the whole of it when
  the run completed.
\<close>

definition follows :: "bool \<Rightarrow> 'a list \<Rightarrow> 'a list \<Rightarrow> bool" where
  "follows completed xs sched = (prefix xs sched \<and> (completed \<longrightarrow> xs = sched))"

text \<open>A hook list leaves an observation \<open>f\<close> of the world alone.\<close>

definition preserves :: "('w \<Rightarrow> 'c) \<Rightarrow> ('x, 'w) hook list \<Rightarrow> bool" where
  "preserves f hooks = (\<forall>h\<in>set hooks. \<forall>x w. f (snd (snd (h x w))) = f w)"

section \<open>Recording collaborators\<close>

text \<open>
  What a render does to its collaborators is observed from their side, as a test with a
  fake client and stamping hooks observes it.  A call as the collaborator received it: a
  hook with its index of registration, the value it was handed, its answer and the value
  it left; a cluster call with the object and the options it was handed, its answer and
  the object it left.
\<close>

datatype ('fs, 'k, 'o) call =
    FSMutatorRan nat 'fs "error option" 'fs
  | KMutatorRan nat 'k "error option" 'k
  | OMutatorRan nat 'o "error option" 'o
  | PostApplyRan nat 'o "error option" 'o
  | Patched 'o patch_type "client_option list" "error option" 'o
  | Created 'o "client_option list" "error option" 'o
  | Deleted 'o "client_option list" "error option" 'o

text \<open>
  \<open>recording mk i h\<close> is the hook \<open>h\<close> registered at index \<open>i\<close>, made to append the call
  it receives to a trace that is kept beside the world; it answers and changes the value
  and the world as \<open>h\<close> does.  \<open>recording_hooks\<close> does this to a list of hooks, numbering
  them in the order of the list, and \<open>recording_client\<close> to the three cluster calls of a
  client.  The renderer never reads or writes the trace: it only hands the world on.
\<close>

definition recording ::
  "(nat \<Rightarrow> 'x \<Rightarrow> error option \<Rightarrow> 'x \<Rightarrow> 'c) \<Rightarrow> nat \<Rightarrow> ('x, 'w) hook
   \<Rightarrow> ('x, 'w \<times> 'c list) hook" where
  "recording mk i h x s =
     (case h x (fst s) of (out, x', w') \<Rightarrow> (out, x', (w', snd s @ [mk i x out x'])))"

fun recording_hooks ::
  "(nat \<Rightarrow> 'x \<Rightarrow> error option \<Rightarrow> 'x \<Rightarrow> 'c) \<Rightarrow> nat \<Rightarrow> ('x, 'w) hook list
   \<Rightarrow> ('x, 'w \<times> 'c list) hook list" where
  "recording_hooks mk i [] = []"
| "recording_hooks mk i (h # hs) = recording mk i h # recording_hooks mk (Suc i) hs"

definition recording_client ::
  "('ro, 'o, 'w) client \<Rightarrow> ('ro, 'o, 'w \<times> ('fs, 'k, 'o) call list) client" where
  "recording_client c =
     \<lparr>Patch = (\<lambda>obj pt opts s.
        case Patch c obj pt opts (fst s) of
          (out, obj', w') \<Rightarrow> (out, obj', (w', snd s @ [Patched obj pt opts out obj']))),
      Create = (\<lambda>obj opts s.
        case Create c obj opts (fst s) of
          (out, obj', w') \<Rightarrow> (out, obj', (w', snd s @ [Created obj opts out obj']))),
      DeleteObj = (\<lambda>obj opts s.
        case DeleteObj c obj opts (fst s) of
          (out, obj', w') \<Rightarrow> (out, obj', (w', snd s @ [Deleted obj opts out obj']))),
      SchemeNew = SchemeNew c\<rparr>"

text \<open>The renderer \<open>r\<close> with every hook and the client recording.\<close>

definition recorded ::
  "('fs, 'k, 'ro, 'o, 'w) Renderer
   \<Rightarrow> ('fs, 'k, 'ro, 'o, 'w \<times> ('fs, 'k, 'o) call list) Renderer" where
  "recorded r =
     \<lparr>cli = recording_client (cli r), from_emb = from_emb r, fieldOwner = fieldOwner r,
      forceOwner = forceOwner r, unstructured = unstructured r,
      kmutators = recording_hooks KMutatorRan 0 (kmutators r),
      omutators = recording_hooks OMutatorRan 0 (omutators r),
      postApply = recording_hooks PostApplyRan 0 (postApply r),
      fsmutators = recording_hooks FSMutatorRan 0 (fsmutators r)\<rparr>"

section \<open>Reading the recorded calls\<close>

fun is_patched :: "('fs, 'k, 'o) call \<Rightarrow> bool" where
  "is_patched (Patched _ _ _ _ _) = True"
| "is_patched _ = False"

fun is_created :: "('fs, 'k, 'o) call \<Rightarrow> bool" where
  "is_created (Created _ _ _ _) = True"
| "is_created _ = False"

fun is_deleted :: "('fs, 'k, 'o) call \<Rightarrow> bool" where
  "is_deleted (Deleted _ _ _ _) = True"
| "is_deleted _ = False"

fun is_omutator_ran :: "('fs, 'k, 'o) call \<Rightarrow> bool" where
  "is_omutator_ran (OMutatorRan _ _ _ _) = True"
| "is_omutator_ran _ = False"

fun is_post_apply_ran :: "('fs, 'k, 'o) call \<Rightarrow> bool" where
  "is_post_apply_ran (PostApplyRan _ _ _ _) = True"
| "is_post_apply_ran _ = False"

fun is_fsmutator_ran :: "('fs, 'k, 'o) call \<Rightarrow> bool" where
  "is_fsmutator_ran (FSMutatorRan _ _ _ _) = True"
| "is_fsmutator_ran _ = False"

fun is_kmutator_ran :: "('fs, 'k, 'o) call \<Rightarrow> bool" where
  "is_kmutator_ran (KMutatorRan _ _ _ _) = True"
| "is_kmutator_ran _ = False"

text \<open>The calls made to the cluster.\<close>

definition to_cluster :: "('fs, 'k, 'o) call \<Rightarrow> bool" where
  "to_cluster c = (is_patched c \<or> is_created c \<or> is_deleted c)"

text \<open>The answer of the collaborator: \<open>None\<close> is nil.\<close>

fun answer :: "('fs, 'k, 'o) call \<Rightarrow> error option" where
  "answer (FSMutatorRan _ _ out _) = out"
| "answer (KMutatorRan _ _ out _) = out"
| "answer (OMutatorRan _ _ out _) = out"
| "answer (PostApplyRan _ _ out _) = out"
| "answer (Patched _ _ _ out _) = out"
| "answer (Created _ _ out _) = out"
| "answer (Deleted _ _ out _) = out"

text \<open>The object a call was handed and the object it left; none for a call on a tree or
  on the descriptor.\<close>

fun handed :: "('fs, 'k, 'o) call \<Rightarrow> 'o option" where
  "handed (OMutatorRan _ x _ _) = Some x"
| "handed (PostApplyRan _ x _ _) = Some x"
| "handed (Patched x _ _ _ _) = Some x"
| "handed (Created x _ _ _) = Some x"
| "handed (Deleted x _ _ _) = Some x"
| "handed _ = None"

fun returned :: "('fs, 'k, 'o) call \<Rightarrow> 'o option" where
  "returned (OMutatorRan _ _ _ x) = Some x"
| "returned (PostApplyRan _ _ _ x) = Some x"
| "returned (Patched _ _ _ _ x) = Some x"
| "returned (Created _ _ _ x) = Some x"
| "returned (Deleted _ _ _ x) = Some x"
| "returned _ = None"

text \<open>The same for the virtual tree and for the decoded descriptor.\<close>

fun handed_tree :: "('fs, 'k, 'o) call \<Rightarrow> 'fs option" where
  "handed_tree (FSMutatorRan _ x _ _) = Some x"
| "handed_tree _ = None"

fun returned_tree :: "('fs, 'k, 'o) call \<Rightarrow> 'fs option" where
  "returned_tree (FSMutatorRan _ _ _ x) = Some x"
| "returned_tree _ = None"

fun handed_descriptor :: "('fs, 'k, 'o) call \<Rightarrow> 'k option" where
  "handed_descriptor (KMutatorRan _ x _ _) = Some x"
| "handed_descriptor _ = None"

fun returned_descriptor :: "('fs, 'k, 'o) call \<Rightarrow> 'k option" where
  "returned_descriptor (KMutatorRan _ _ _ x) = Some x"
| "returned_descriptor _ = None"

text \<open>
  A value flows through a list of calls from \<open>x\<close> to \<open>y\<close>: the first call is handed \<open>x\<close>,
  every later call is handed what the call before it left, and the last call leaves \<open>y\<close>.
  \<open>flows\<close> leaves the end open.
\<close>

fun flow :: "('c \<Rightarrow> 'x option) \<Rightarrow> ('c \<Rightarrow> 'x option) \<Rightarrow> 'x \<Rightarrow> 'c list \<Rightarrow> 'x \<Rightarrow> bool" where
  "flow inp outp x [] y = (y = x)"
| "flow inp outp x (c # cs) y =
     (inp c = Some x \<and> (case outp c of None \<Rightarrow> False | Some x' \<Rightarrow> flow inp outp x' cs y))"

fun flows :: "('c \<Rightarrow> 'x option) \<Rightarrow> ('c \<Rightarrow> 'x option) \<Rightarrow> 'x \<Rightarrow> 'c list \<Rightarrow> bool" where
  "flows inp outp x [] = True"
| "flows inp outp x (c # cs) =
     (inp c = Some x \<and> (case outp c of None \<Rightarrow> False | Some x' \<Rightarrow> flows inp outp x' cs))"

text \<open>
  A call is fatal when the collaborator answered with an error, except for a patch or a
  delete answered with not-found.  A render has stopped at the first error when no call
  but the last was fatal, and none at all when it returned nil.
\<close>

definition fatal_call :: "(error \<Rightarrow> bool) \<Rightarrow> ('fs, 'k, 'o) call \<Rightarrow> bool" where
  "fatal_call nf c =
     (case answer c of
        None \<Rightarrow> False
      | Some e \<Rightarrow> \<not> ((is_patched c \<or> is_deleted c) \<and> nf e))"

definition stopped :: "(error \<Rightarrow> bool) \<Rightarrow> bool \<Rightarrow> ('fs, 'k, 'o) call list \<Rightarrow> bool" where
  "stopped nf failed calls =
     (list_all (\<lambda>c. \<not> fatal_call nf c) (butlast calls) \<and>
      (if failed then True else list_all (\<lambda>c. \<not> fatal_call nf c) calls))"

text \<open>
  The submission policy on the calls the cluster received, \<open>po\<close> being the options of a
  patch: every patch is a server-side apply with the options \<open>po\<close>; a patch answered with
  not-found is followed at once by a create, of the object the patch left and with no
  option, and a create that failed is the last call; a patch that failed otherwise is the
  last call; there is no create elsewhere (so none after a patch that succeeded), and no
  delete.
\<close>

fun submissions ::
  "(error \<Rightarrow> bool) \<Rightarrow> client_option list \<Rightarrow> ('fs, 'k, 'o) call list \<Rightarrow> bool" where
  "submissions nf po [] = True"
| "submissions nf po (Patched obj pt opts None obj' # cs) =
     (pt = ApplyPatch \<and> opts = po \<and> submissions nf po cs)"
| "submissions nf po (Patched obj pt opts (Some e) obj' # cs) =
     (pt = ApplyPatch \<and> opts = po \<and>
      (if nf e then
         (case cs of
            Created cobj copts None _ # cs' \<Rightarrow>
              cobj = obj' \<and> copts = [] \<and> submissions nf po cs'
          | Created cobj copts (Some _) _ # cs' \<Rightarrow> cobj = obj' \<and> copts = [] \<and> cs' = []
          | _ \<Rightarrow> False)
       else cs = []))"
| "submissions nf po (Created _ _ _ _ # cs) = False"
| "submissions nf po (Deleted _ _ _ _ # cs) = False"
| "submissions nf po (_ # cs) = submissions nf po cs"

text \<open>
  The step of the pipeline a recorded call is, \<open>j\<close> being the position of its object in
  the composed list; and the steps of the calls of a render, made of the calls of
  \<open>parse\<close> and then one list of calls for every object the loop reached, in order.
\<close>

fun call_step :: "nat \<Rightarrow> ('fs, 'k, 'o) call \<Rightarrow> step list" where
  "call_step j (FSMutatorRan i _ _ _) = [FSHook i]"
| "call_step j (KMutatorRan i _ _ _) = [DescriptorHook i]"
| "call_step j (OMutatorRan i _ _ _) = [ObjectHook j i]"
| "call_step j (PostApplyRan i _ _ _) = [PostApply j i]"
| "call_step j (Patched _ _ _ _ _) = [Submit j]"
| "call_step j (Created _ _ _ _) = []"
| "call_step j (Deleted _ _ _ _) = [DeleteRequest j]"

fun object_steps :: "nat \<Rightarrow> ('fs, 'k, 'o) call list list \<Rightarrow> step list" where
  "object_steps j [] = []"
| "object_steps j (seg # segs) = concat (map (call_step j) seg) @ object_steps (Suc j) segs"

definition call_steps ::
  "('fs, 'k, 'o) call list \<Rightarrow> ('fs, 'k, 'o) call list list \<Rightarrow> step list" where
  "call_steps pcalls segs = concat (map (call_step 0) pcalls) @ object_steps 0 segs"

text \<open>The steps of a schedule that are calls to a hook or to the cluster.\<close>

fun hooked :: "step \<Rightarrow> bool" where
  "hooked (FSHook _) = True"
| "hooked (DescriptorHook _) = True"
| "hooked (ObjectHook _ _) = True"
| "hooked (Submit _) = True"
| "hooked (PostApply _ _) = True"
| "hooked (DeleteRequest _) = True"
| "hooked _ = False"

text \<open>
  The entry of the call log that stands for a recorded call, for the object at position
  \<open>j\<close>; \<open>collab\<close> are the entries of the log that stand for a call to a collaborator.
\<close>

fun event_of :: "nat \<Rightarrow> ('fs, 'k, 'o) call \<Rightarrow> 'fs event" where
  "event_of j (FSMutatorRan i fs out _) = FSMutatorCall i fs out"
| "event_of j (KMutatorRan i _ out _) = KMutatorCall i out"
| "event_of j (OMutatorRan i _ out _) = OMutatorCall j i out"
| "event_of j (PostApplyRan i _ out _) = PostApplyCall j i out"
| "event_of j (Patched _ pt opts out _) = PatchCall j pt opts out"
| "event_of j (Created _ opts out _) = CreateCall j opts out"
| "event_of j (Deleted _ _ out _) = DeleteCall j out"

fun events_of :: "nat \<Rightarrow> ('fs, 'k, 'o) call list list \<Rightarrow> 'fs event list" where
  "events_of j [] = []"
| "events_of j (seg # segs) = map (event_of j) seg @ events_of (Suc j) segs"

fun collab :: "'fs event \<Rightarrow> bool" where
  "collab (FSMutatorCall _ _ _) = True"
| "collab (KMutatorCall _ _) = True"
| "collab (OMutatorCall _ _ _) = True"
| "collab (PatchCall _ _ _ _) = True"
| "collab (CreateCall _ _ _) = True"
| "collab (PostApplyCall _ _ _) = True"
| "collab (DeleteCall _ _) = True"
| "collab _ = False"

section \<open>An example instance\<close>

text \<open>
  A small world to run the model on: the virtual tree is an association list from paths
  to contents, a descriptor lists one resource per character, a resource converts to the
  object of the same name, and the cluster is the list of the objects it holds.  The
  client answers not-found for an object the cluster does not hold, and refuses every
  call on an object of the list \<open>denied\<close>.
\<close>

type_synonym tree = "(string \<times> string) list"

definition clean :: "string \<Rightarrow> string" where
  "clean p = dropWhile (\<lambda>c. c = CHR ''/'') p"

definition ex_libs :: "(tree, string, string, string, string) libs" where
  "ex_libs =
     \<lparr>MakeFsInMemory = [],
      ReadFile = (\<lambda>fs p. case map_of fs (clean p) of
                            None \<Rightarrow> Inl (Err ''file does not exist'')
                          | Some c \<Rightarrow> Inr c),
      WriteFile = (\<lambda>fs p c. Inr ((clean p, c) # fs)),
      pathJoin = (\<lambda>a b. if a = ''.'' then b else a @ ''/'' @ b),
      yamlUnmarshal = (\<lambda>s. Inr (filter (\<lambda>c. c \<noteq> CHR '' '') s)),
      yamlMarshal = (\<lambda>k. Inr k),
      Run = (\<lambda>fs p. case map_of fs (p @ ''/kustomization.yaml'') of
                       None \<Rightarrow> Inl (Err ''no kustomization file'')
                     | Some c \<Rightarrow> Inr (map (\<lambda>ch. [ch]) c)),
      GetGvk = (\<lambda>rsc. \<lparr>Group = [], Version = ''v1'', Kind = rsc\<rparr>),
      AsYAML = Inr,
      Decode = Inr,
      MarshalJSON = Inr,
      jsonUnmarshal = (\<lambda>raw ro. Inr raw),
      asClientObject = Some,
      gvkString = (\<lambda>ro. ro),
      IsNotFound = (\<lambda>e. e = Err ''not found'')\<rparr>"

definition ex_client :: "string list \<Rightarrow> (string, string, string list) client" where
  "ex_client denied =
     \<lparr>Patch = (\<lambda>obj pt opts w.
                 if obj \<in> set denied then (Some (Err ''forbidden''), obj, w)
                 else if obj \<in> set w then (None, obj, w)
                 else (Some (Err ''not found''), obj, w)),
      Create = (\<lambda>obj opts w. (None, obj, obj # w)),
      DeleteObj = (\<lambda>obj opts w.
                 if obj \<in> set denied then (Some (Err ''forbidden''), obj, w)
                 else if obj \<in> set w then (None, obj, removeAll obj w)
                 else (Some (Err ''not found''), obj, w)),
      SchemeNew = (\<lambda>g. if Kind g \<in> {''a'', ''b'', ''c''} then Inr []
                       else Inl (Err ''no kind is registered''))\<rparr>"

definition ex_emb :: "string \<Rightarrow> embed_entry" where
  "ex_emb resources =
     EmbDir ''.'' [EmbDir ''kustomize''
       [EmbDir ''base'' [EmbFile ''kustomization.yaml'' resources]]]"

text \<open>A hook that fails on the value \<open>n\<close> and leaves everything alone.\<close>

definition fail_on :: "'x \<Rightarrow> ('x, string list) hook" where
  "fail_on n x w = (if x = n then (Some (Err ''hook failed''), x, w) else (None, x, w))"

text \<open>A hook that succeeds and leaves everything alone.\<close>

definition stamp :: "('x, string list) hook" where
  "stamp x w = (None, x, w)"

text \<open>A filesystem hook that adds a file to the tree it is handed.\<close>

definition add_file :: "string \<Rightarrow> string \<Rightarrow> (tree, string list) hook" where
  "add_file p c fs w = (None, (p, c) # fs, w)"

text \<open>A descriptor hook that adds a resource to the descriptor.\<close>

definition add_resource :: "char \<Rightarrow> (string, string list) hook" where
  "add_resource c k w = (None, k @ [c], w)"


section \<open>Lemmas on the loops\<close>

lemma run_hooks_all:
  assumes "\<And>n y out. P (mk n y out)"
  shows "run_hooks mk i hs x w = (res, x', w', evs) \<Longrightarrow> ev \<in> set evs \<Longrightarrow> P ev"
proof (induction hs arbitrary: i x w res x' w' evs)
  case Nil
  then show ?case by simp
next
  case (Cons h hs)
  then show ?case using assms
    by (auto split: prod.splits option.splits)
qed


lemma follows_Nil [simp]: "follows c [] [] "
  by (simp add: follows_def)





lemma fail_fast_Nil [simp]: "fail_fast nf False []"
  by (simp add: fail_fast_def)

lemma fail_fast_append:
  "fail_fast nf False xs \<Longrightarrow> fail_fast nf c ys \<Longrightarrow> fail_fast nf c (xs @ ys)"
  by (auto simp: fail_fast_def butlast_append)

lemma fail_fast_Cons:
  "\<not> fatal nf x \<Longrightarrow> fail_fast nf c ys \<Longrightarrow> fail_fast nf c (x # ys)"
  using fail_fast_append[of nf "[x]" c ys] by (simp add: fail_fast_def)

lemma fail_fast_single:
  "fail_fast nf c [x] = (fatal nf x \<longleftrightarrow> c)"
  by (auto simp: fail_fast_def)

lemma run_hooks_fail_fast:
  assumes f: "\<And>n y out. fatal nf (mk n y out) = (out \<noteq> None)"
  shows "run_hooks mk i hs x w = (res, x', w', evs) \<Longrightarrow> fail_fast nf (res \<noteq> None) evs"
proof (induction hs arbitrary: i x w res x' w' evs)
  case Nil
  then show ?case by auto
next
  case (Cons h hs)
  obtain r1 x1 w1 where h: "h x w = (r1, x1, w1)" by (rule prod_cases3)
  show ?case
  proof (cases r1)
    case (Some e)
    with Cons.prems h have "res = Some e" "evs = [mk i x (Some e)]" by auto
    then show ?thesis by (simp add: fail_fast_single f)
  next
    case None
    obtain r2 x2 w2 evs2 where l: "run_hooks mk (Suc i) hs x1 w1 = (r2, x2, w2, evs2)"
      by (rule prod_cases4)
    from Cons.prems h None l have eq: "res = r2" "evs = mk i x None # evs2" by auto
    from Cons.IH[OF l] show ?thesis unfolding eq by (simp add: fail_fast_Cons f)
  qed
qed

lemma run_hooks_preserves:
  "preserves f hs \<Longrightarrow> run_hooks mk i hs x w = (res, x', w', evs) \<Longrightarrow> f w' = f w"
proof (induction hs arbitrary: i x w res x' w' evs)
  case Nil
  then show ?case by simp
next
  case (Cons h hs)
  obtain r1 x1 w1 where h: "h x w = (r1, x1, w1)" by (rule prod_cases3)
  from Cons.prems(1) have p: "preserves f hs"
    by (simp add: preserves_def)
  from Cons.prems(1) have "f (snd (snd (h x w))) = f w"
    by (simp add: preserves_def)
  with h have hw: "f w1 = f w" by simp
  show ?case
  proof (cases r1)
    case (Some e)
    with Cons.prems h hw show ?thesis by auto
  next
    case None
    obtain r2 x2 w2 evs2 where l: "run_hooks mk (Suc i) hs x1 w1 = (r2, x2, w2, evs2)"
      by (rule prod_cases4)
    from Cons.prems h None l have "w' = w2" by auto
    with Cons.IH[OF p l] hw show ?thesis by simp
  qed
qed

lemma for_objects_induct:
  assumes run: "for_objects body j objs w = (res, w', evs)"
    and body: "\<And>j obj w res w' evs. body j obj w = (res, w', evs) \<Longrightarrow> Q j res evs"
    and nil: "\<And>j. P j None []"
    and stop: "\<And>j e evs. Q j (Some e) evs \<Longrightarrow> P j (Some e) evs"
    and step: "\<And>j res evs evs'. Q j None evs \<Longrightarrow> P (Suc j) res evs' \<Longrightarrow> P j res (evs @ evs')"
  shows "P j res evs"
  using run
proof (induction objs arbitrary: j w res w' evs)
  case Nil
  then show ?case by (simp add: nil)
next
  case (Cons obj objs)
  obtain r1 w1 evs1 where b: "body j obj w = (r1, w1, evs1)" by (rule prod_cases3)
  show ?case
  proof (cases r1)
    case None
    obtain r2 w2 evs2 where l: "for_objects body (Suc j) objs w1 = (r2, w2, evs2)"
      by (rule prod_cases3)
    from Cons.prems b None l have eq: "res = r2" "evs = evs1 @ evs2" by auto
    from body[OF b] None have "Q j None evs1" by simp
    moreover from Cons.IH[OF l] have "P (Suc j) r2 evs2" .
    ultimately show ?thesis unfolding eq by (rule step)
  next
    case (Some e)
    with Cons.prems b have eq: "res = Some e" "evs = evs1" by auto
    from body[OF b] Some have "Q j (Some e) evs1" by simp
    then show ?thesis unfolding eq by (rule stop)
  qed
qed


lemma for_objects_fail_fast:
  assumes run: "for_objects body j objs w = (res, w', evs)"
    and body: "\<And>j obj w res w' evs. body j obj w = (res, w', evs) \<Longrightarrow>
       fail_fast nf (res \<noteq> None) evs"
  shows "fail_fast nf (res \<noteq> None) evs"
  by (rule for_objects_induct[OF run, where Q="\<lambda>j res evs. fail_fast nf (res \<noteq> None) evs"
        and P="\<lambda>j res evs. fail_fast nf (res \<noteq> None) evs"])
     (auto dest: body intro: fail_fast_append)


section \<open>Case analyses of the pipeline\<close>

lemma mutateKustomization_cases
  [consumes 1, case_names skipped read_failed decode_failed hook_failed encode_failed
     write_failed written]:
  fixes evs :: "'fs event list"
  assumes "mutateKustomization L r fs w = (res, fs', w', evs)"
  obtains
    (skipped) "kmutators r = []" "res = None" "fs' = fs" "w' = w" "evs = []"
  | (read_failed) e where "kmutators r \<noteq> []"
      "ReadFile L fs BaseKustomizationPath = Inl e"
      "res = Some (Wrap ''error reading base kustomization'' e)" "fs' = fs" "w' = w"
      "evs = [ReadFileCall fs BaseKustomizationPath (Some e)]"
  | (decode_failed) olddt e where "kmutators r \<noteq> []"
      "ReadFile L fs BaseKustomizationPath = Inr olddt" "yamlUnmarshal L olddt = Inl e"
      "res = Some (Wrap ''error parsing base kustomization'' e)" "fs' = fs" "w' = w"
      "evs = [ReadFileCall fs BaseKustomizationPath None, UnmarshalCall (Some e)]"
  | (hook_failed) olddt kust e kust1 kevs where "kmutators r \<noteq> []"
      "ReadFile L fs BaseKustomizationPath = Inr olddt" "yamlUnmarshal L olddt = Inr kust"
      "run_hooks (\<lambda>i _. KMutatorCall i) 0 (kmutators r) kust w = (Some e, kust1, w', kevs)"
      "res = Some (Wrap ''error mutating kustomization'' e)" "fs' = fs"
      "evs = [ReadFileCall fs BaseKustomizationPath None, UnmarshalCall None] @ kevs"
  | (encode_failed) olddt kust kust1 kevs e where "kmutators r \<noteq> []"
      "ReadFile L fs BaseKustomizationPath = Inr olddt" "yamlUnmarshal L olddt = Inr kust"
      "run_hooks (\<lambda>i _. KMutatorCall i) 0 (kmutators r) kust w = (None, kust1, w', kevs)"
      "yamlMarshal L kust1 = Inl e"
      "res = Some (Wrap ''error marshaling base kustomization'' e)" "fs' = fs"
      "evs = [ReadFileCall fs BaseKustomizationPath None, UnmarshalCall None] @ kevs @
             [MarshalCall (Some e)]"
  | (write_failed) olddt kust kust1 kevs newdt e where "kmutators r \<noteq> []"
      "ReadFile L fs BaseKustomizationPath = Inr olddt" "yamlUnmarshal L olddt = Inr kust"
      "run_hooks (\<lambda>i _. KMutatorCall i) 0 (kmutators r) kust w = (None, kust1, w', kevs)"
      "yamlMarshal L kust1 = Inr newdt"
      "WriteFile L fs BaseKustomizationPath newdt = Inl e"
      "res = Some (Wrap ''error writing base kustomization'' e)" "fs' = fs"
      "evs = [ReadFileCall fs BaseKustomizationPath None, UnmarshalCall None] @ kevs @
             [MarshalCall None, WriteFileCall fs BaseKustomizationPath newdt (Some e)]"
  | (written) olddt kust kust1 kevs newdt where "kmutators r \<noteq> []"
      "ReadFile L fs BaseKustomizationPath = Inr olddt" "yamlUnmarshal L olddt = Inr kust"
      "run_hooks (\<lambda>i _. KMutatorCall i) 0 (kmutators r) kust w = (None, kust1, w', kevs)"
      "yamlMarshal L kust1 = Inr newdt"
      "WriteFile L fs BaseKustomizationPath newdt = Inr fs'"
      "res = None"
      "evs = [ReadFileCall fs BaseKustomizationPath None, UnmarshalCall None] @ kevs @
             [MarshalCall None, WriteFileCall fs BaseKustomizationPath newdt None]"
proof (cases "kmutators r = []")
  case True
  with assms show thesis
    by (intro skipped) (auto simp: mutateKustomization_def)
next
  case ne: False
  show thesis
  proof (cases "ReadFile L fs BaseKustomizationPath")
    case (Inl e)
    with assms ne show thesis
      by (intro read_failed[of e]) (auto simp: mutateKustomization_def)
  next
    case rd: (Inr olddt)
    show thesis
    proof (cases "yamlUnmarshal L olddt")
      case (Inl e)
      with assms ne rd show thesis
        by (intro decode_failed[of olddt e]) (auto simp: mutateKustomization_def)
    next
      case dec: (Inr kust)
      obtain r1 kust1 w1 and kevs :: "'fs event list" where h:
        "run_hooks (\<lambda>i _. KMutatorCall i) 0 (kmutators r) kust w = (r1, kust1, w1, kevs)"
        by (rule prod_cases4)
      show thesis
      proof (cases r1)
        case (Some e)
        with assms ne rd dec h show thesis
          by (intro hook_failed[of olddt kust e kust1 kevs])
             (auto simp: mutateKustomization_def)
      next
        case None
        show thesis
        proof (cases "yamlMarshal L kust1")
          case (Inl e)
          with assms ne rd dec h None show thesis
            by (intro encode_failed[of olddt kust kust1 kevs e])
               (auto simp: mutateKustomization_def)
        next
          case enc: (Inr newdt)
          show thesis
          proof (cases "WriteFile L fs BaseKustomizationPath newdt")
            case (Inl e)
            with assms ne rd dec h None enc show thesis
              by (intro write_failed[of olddt kust kust1 kevs newdt e])
                 (auto simp: mutateKustomization_def)
          next
            case (Inr fs2)
            with assms ne rd dec h None enc show thesis
              by (intro written[of olddt kust kust1 kevs newdt])
                 (auto simp: mutateKustomization_def)
          qed
        qed
      qed
    qed
  qed
qed

lemma parse_cases
  [consumes 1, case_names load_failed fs_failed descriptor_failed compose_failed composed]:
  fixes evs :: "'fs event list"
  assumes "parse L r overlay w = (res, w', evs)"
  obtains
    (load_failed) e where "LoadFS L (from_emb r) = Inl e"
      "res = Inl (Wrap ''unable to load overlay'' e)" "w' = w" "evs = [LoadFSCall (Inl e)]"
  | (fs_failed) virtfs e fs1 evs1 where "LoadFS L (from_emb r) = Inr virtfs"
      "run_hooks FSMutatorCall 0 (fsmutators r) virtfs w = (Some e, fs1, w', evs1)"
      "res = Inl (Wrap ''error mutating filesystem'' e)"
      "evs = LoadFSCall (Inr virtfs) # evs1"
  | (descriptor_failed) virtfs fs1 w1 evs1 e fs2 evs2 where
      "LoadFS L (from_emb r) = Inr virtfs"
      "run_hooks FSMutatorCall 0 (fsmutators r) virtfs w = (None, fs1, w1, evs1)"
      "mutateKustomization L r fs1 w1 = (Some e, fs2, w', evs2)"
      "res = Inl (Wrap ''error setting object name prefix'' e)"
      "evs = LoadFSCall (Inr virtfs) # evs1 @ evs2"
  | (compose_failed) virtfs fs1 w1 evs1 fs2 evs2 e where
      "LoadFS L (from_emb r) = Inr virtfs"
      "run_hooks FSMutatorCall 0 (fsmutators r) virtfs w = (None, fs1, w1, evs1)"
      "mutateKustomization L r fs1 w1 = (None, fs2, w', evs2)"
      "Run L fs2 (pathJoin L ''kustomize'' overlay) = Inl e"
      "res = Inl (Wrap ''error running kustomize'' e)"
      "evs = LoadFSCall (Inr virtfs) # evs1 @ evs2 @
             [KustomizeCall fs2 (pathJoin L ''kustomize'' overlay) (Some e)]"
  | (composed) virtfs fs1 w1 evs1 fs2 evs2 rs evs3 where
      "LoadFS L (from_emb r) = Inr virtfs"
      "run_hooks FSMutatorCall 0 (fsmutators r) virtfs w = (None, fs1, w1, evs1)"
      "mutateKustomization L r fs1 w1 = (None, fs2, w', evs2)"
      "Run L fs2 (pathJoin L ''kustomize'' overlay) = Inr rs"
      "convert_resources L r 0 rs [] = (res, evs3)"
      "evs = LoadFSCall (Inr virtfs) # evs1 @ evs2 @
             [KustomizeCall fs2 (pathJoin L ''kustomize'' overlay) None] @ evs3"
  using assms unfolding parse_def
  by (auto split: sum.splits prod.splits option.splits)

lemma submit_cases [consumes 1, case_names patched patch_failed created create_failed]:
  assumes "submit L r j obj w = (res, obj', w', evs)"
  obtains
    (patched) "Patch (cli r) obj ApplyPatch (patch_options r) w = (None, obj', w')"
      "res = None" "evs = [PatchCall j ApplyPatch (patch_options r) None]"
  | (patch_failed) err where
      "Patch (cli r) obj ApplyPatch (patch_options r) w = (Some err, obj', w')"
      "\<not> IsNotFound L err" "res = Some (Wrap ''error patching object'' err)"
      "evs = [PatchCall j ApplyPatch (patch_options r) (Some err)]"
  | (created) err obj1 w1 where
      "Patch (cli r) obj ApplyPatch (patch_options r) w = (Some err, obj1, w1)"
      "IsNotFound L err" "Create (cli r) obj1 [] w1 = (None, obj', w')" "res = None"
      "evs = [PatchCall j ApplyPatch (patch_options r) (Some err), CreateCall j [] None]"
  | (create_failed) err obj1 w1 err2 where
      "Patch (cli r) obj ApplyPatch (patch_options r) w = (Some err, obj1, w1)"
      "IsNotFound L err" "Create (cli r) obj1 [] w1 = (Some err2, obj', w')"
      "res = Some (Wrap ''error creating object'' err2)"
      "evs = [PatchCall j ApplyPatch (patch_options r) (Some err), CreateCall j [] (Some err2)]"
  using assms unfolding submit_def Let_def
  by (auto split: prod.splits option.splits if_splits)

lemma Apply_object_cases
  [consumes 1, case_names mutator_failed submit_failed action_failed applied]:
  fixes evs :: "'fs event list"
  assumes "Apply_object L r j obj w = (res, w', evs)"
  obtains
    (mutator_failed) e obj1 where
      "run_hooks (\<lambda>i _. OMutatorCall j i) 0 (omutators r) obj w = (Some e, obj1, w', evs)"
      "res = Some (Wrap ''error mutating object'' e)"
  | (submit_failed) obj1 w1 evs1 e obj2 evs2 where
      "run_hooks (\<lambda>i _. OMutatorCall j i) 0 (omutators r) obj w = (None, obj1, w1, evs1)"
      "submit L r j obj1 w1 = (Some e, obj2, w', evs2)"
      "res = Some e" "evs = evs1 @ evs2"
  | (action_failed) obj1 w1 evs1 obj2 w2 evs2 e obj3 evs3 where
      "run_hooks (\<lambda>i _. OMutatorCall j i) 0 (omutators r) obj w = (None, obj1, w1, evs1)"
      "submit L r j obj1 w1 = (None, obj2, w2, evs2)"
      "run_hooks (\<lambda>i _. PostApplyCall j i) 0 (postApply r) obj2 w2 = (Some e, obj3, w', evs3)"
      "res = Some (Wrap ''error running post apply action'' e)" "evs = evs1 @ evs2 @ evs3"
  | (applied) obj1 w1 evs1 obj2 w2 evs2 obj3 evs3 where
      "run_hooks (\<lambda>i _. OMutatorCall j i) 0 (omutators r) obj w = (None, obj1, w1, evs1)"
      "submit L r j obj1 w1 = (None, obj2, w2, evs2)"
      "run_hooks (\<lambda>i _. PostApplyCall j i) 0 (postApply r) obj2 w2 = (None, obj3, w', evs3)"
      "res = None" "evs = evs1 @ evs2 @ evs3"
  using assms unfolding Apply_object_def
  by (auto split: prod.splits option.splits)

lemma Delete_object_cases
  [consumes 1, case_names mutator_failed deleted absent delete_failed]:
  fixes evs :: "'fs event list"
  assumes "Delete_object L r j obj w = (res, w', evs)"
  obtains
    (mutator_failed) e obj1 where
      "run_hooks (\<lambda>i _. OMutatorCall j i) 0 (omutators r) obj w = (Some e, obj1, w', evs)"
      "res = Some (Wrap ''error mutating object'' e)"
  | (deleted) obj1 w1 evs1 obj2 where
      "run_hooks (\<lambda>i _. OMutatorCall j i) 0 (omutators r) obj w = (None, obj1, w1, evs1)"
      "DeleteObj (cli r) obj1 [] w1 = (None, obj2, w')"
      "res = None" "evs = evs1 @ [DeleteCall j None]"
  | (absent) obj1 w1 evs1 err obj2 where
      "run_hooks (\<lambda>i _. OMutatorCall j i) 0 (omutators r) obj w = (None, obj1, w1, evs1)"
      "DeleteObj (cli r) obj1 [] w1 = (Some err, obj2, w')" "IsNotFound L err"
      "res = None" "evs = evs1 @ [DeleteCall j (Some err)]"
  | (delete_failed) obj1 w1 evs1 err obj2 where
      "run_hooks (\<lambda>i _. OMutatorCall j i) 0 (omutators r) obj w = (None, obj1, w1, evs1)"
      "DeleteObj (cli r) obj1 [] w1 = (Some err, obj2, w')" "\<not> IsNotFound L err"
      "res = Some (Wrap ''error deleting object'' err)" "evs = evs1 @ [DeleteCall j (Some err)]"
  using assms unfolding Delete_object_def
  by (auto split: prod.splits option.splits if_splits)

lemma Apply_cases [consumes 1, case_names parse_failed parsed]:
  fixes evs :: "'fs event list"
  assumes "Apply L r overlay w = (res, w', evs)"
  obtains
    (parse_failed) err where "parse L r overlay w = (Inl err, w', evs)"
      "res = Some (Wrap ''error parsing kustomize files'' err)"
  | (parsed) objs w1 evs1 evs2 where "parse L r overlay w = (Inr objs, w1, evs1)"
      "for_objects (Apply_object L r) 0 objs w1 = (res, w', evs2)" "evs = evs1 @ evs2"
  using assms unfolding Apply_def
  by (auto split: prod.splits sum.splits)

lemma Delete_cases [consumes 1, case_names parse_failed parsed]:
  fixes evs :: "'fs event list"
  assumes "Delete L r overlay w = (res, w', evs)"
  obtains
    (parse_failed) err where "parse L r overlay w = (Inl err, w', evs)"
      "res = Some (Wrap ''error parsing kustomize files'' err)"
  | (parsed) objs w1 evs1 evs2 where "parse L r overlay w = (Inr objs, w1, evs1)"
      "for_objects (Delete_object L r) 0 objs w1 = (res, w', evs2)" "evs = evs1 @ evs2"
  using assms unfolding Delete_def
  by (auto split: prod.splits sum.splits)

section \<open>The log of each stage\<close>

lemma steps_simps [simp]:
  "steps [] = []" "steps (ev # evs) = step_of ev @ steps evs"
  "steps (xs @ ys) = steps xs @ steps ys"
  by (simp_all add: steps_def)

lemma fatal_simps [simp]:
  "fatal nf (LoadFSCall x) = isl x"
  "fatal nf (FSMutatorCall i fs out) = (out \<noteq> None)"
  "fatal nf (ReadFileCall fs p out) = (out \<noteq> None)"
  "fatal nf (UnmarshalCall out) = (out \<noteq> None)"
  "fatal nf (KMutatorCall i out) = (out \<noteq> None)"
  "fatal nf (MarshalCall out) = (out \<noteq> None)"
  "fatal nf (WriteFileCall fs p c out) = (out \<noteq> None)"
  "fatal nf (KustomizeCall fs p out) = (out \<noteq> None)"
  "fatal nf (ConvertCall j out) = (out \<noteq> None)"
  "fatal nf (OMutatorCall j i out) = (out \<noteq> None)"
  "fatal nf (PatchCall j pt opts out) = (case out of None \<Rightarrow> False | Some e \<Rightarrow> \<not> nf e)"
  "fatal nf (CreateCall j opts out) = (out \<noteq> None)"
  "fatal nf (PostApplyCall j i out) = (out \<noteq> None)"
  "fatal nf (DeleteCall j out) = (case out of None \<Rightarrow> False | Some e \<Rightarrow> \<not> nf e)"
  by (cases x; auto simp: fatal_def split: option.splits)+

lemma convert_resources_all:
  assumes "\<And>n out. P (ConvertCall n out)"
  shows "convert_resources L r j rs objs = (res, evs) \<Longrightarrow> ev \<in> set evs \<Longrightarrow> P ev"
proof (induction rs arbitrary: j objs res evs)
  case Nil
  then show ?case by simp
next
  case (Cons rsc rs)
  then show ?case using assms
    by (auto split: prod.splits sum.splits if_splits)
qed

lemma convert_resources_Cons_cases [consumes 1, case_names failed converted]:
  fixes evs :: "'fs event list"
  assumes "convert_resources L r j (rsc # rs) objs = (res, evs)"
  obtains
    (failed) e e' where
      "(if unstructured r then unstructuredObject L rsc else typedObject L r rsc) = Inl e"
      "res = Inl e'" "unstructured r \<or> e' = e" "evs = [ConvertCall j (Some e)]"
  | (converted) obj evs' where
      "(if unstructured r then unstructuredObject L rsc else typedObject L r rsc) = Inr obj"
      "convert_resources L r (Suc j) rs (objs @ [obj]) = (res, evs')"
      "evs = ConvertCall j None # evs'"
  using assms by (auto split: prod.splits sum.splits if_splits)


lemma convert_resources_fail_fast:
  "convert_resources L r j rs objs = (res, evs) \<Longrightarrow> fail_fast nf (isl res) evs"
proof (induction rs arbitrary: j objs res evs)
  case Nil
  then show ?case by auto
next
  case (Cons rsc rs)
  from Cons.prems show ?case
  proof (cases rule: convert_resources_Cons_cases)
    case (failed e e')
    then show ?thesis by (simp add: fail_fast_single)
  next
    case (converted obj evs')
    from Cons.IH[OF converted(2)] show ?thesis
      unfolding converted(3) by (rule fail_fast_Cons[rotated]) simp
  qed
qed



lemma not_object_call:
  "\<not> is_object_call ev \<Longrightarrow>
   \<not> is_patch ev \<and> \<not> is_create ev \<and> \<not> is_delete ev \<and> \<not> is_post_apply ev \<and>
   \<not> is_cluster_call ev"
  by (cases ev) (simp_all add: is_cluster_call_def)

lemma mutateKustomization_no_object_call:
  fixes evs :: "'fs event list"
  assumes "mutateKustomization L r fs w = (res, fs', w', evs)"
  shows "\<forall>ev\<in>set evs. \<not> is_object_call ev"
  using assms
  by (cases rule: mutateKustomization_cases)
     (auto dest: run_hooks_all[where P="\<lambda>ev. \<not> is_object_call ev", rotated])

lemma parse_no_object_call:
  fixes evs :: "'fs event list"
  assumes "parse L r overlay w = (res, w', evs)"
  shows "\<forall>ev\<in>set evs. \<not> is_object_call ev"
  using assms
  by (cases rule: parse_cases)
     (auto dest: run_hooks_all[where P="\<lambda>ev. \<not> is_object_call ev", rotated]
        mutateKustomization_no_object_call[THEN bspec]
        convert_resources_all[where P="\<lambda>ev. \<not> is_object_call ev", rotated])

lemma descriptor_hooks_fail_fast:
  fixes evs :: "'fs event list"
  assumes "run_hooks (\<lambda>i _. KMutatorCall i) 0 hs x w = (res, x', w', evs)"
  shows "fail_fast nf (res \<noteq> None) evs"
  by (rule run_hooks_fail_fast[OF _ assms]) simp

lemma fsmutators_fail_fast:
  assumes "run_hooks FSMutatorCall 0 hs x w = (res, x', w', evs)"
  shows "fail_fast nf (res \<noteq> None) evs"
  by (rule run_hooks_fail_fast[OF _ assms]) simp

lemma omutators_fail_fast:
  fixes evs :: "'fs event list"
  assumes "run_hooks (\<lambda>i _. OMutatorCall j i) 0 hs x w = (res, x', w', evs)"
  shows "fail_fast nf (res \<noteq> None) evs"
  by (rule run_hooks_fail_fast[OF _ assms]) simp

lemma postApply_fail_fast:
  fixes evs :: "'fs event list"
  assumes "run_hooks (\<lambda>i _. PostApplyCall j i) 0 hs x w = (res, x', w', evs)"
  shows "fail_fast nf (res \<noteq> None) evs"
  by (rule run_hooks_fail_fast[OF _ assms]) simp

lemma mutateKustomization_fail_fast:
  fixes evs :: "'fs event list"
  assumes "mutateKustomization L r fs w = (res, fs', w', evs)"
  shows "fail_fast nf (res \<noteq> None) evs"
  using assms
proof (cases rule: mutateKustomization_cases)
  case skipped
  then show ?thesis by simp
next
  case (read_failed e)
  then show ?thesis by (simp add: fail_fast_single)
next
  case (decode_failed olddt e)
  then show ?thesis by (simp add: fail_fast_def)
next
  case (hook_failed olddt kust e kust1 kevs)
  from descriptor_hooks_fail_fast[OF hook_failed(4)] show ?thesis
    unfolding hook_failed(5,7) by (simp add: fail_fast_Cons)
next
  case (encode_failed olddt kust kust1 kevs e)
  have "fail_fast nf True [MarshalCall (Some e)]"
    by (simp add: fail_fast_single)
  from fail_fast_append[OF descriptor_hooks_fail_fast[OF encode_failed(4), simplified] this]
  show ?thesis
    unfolding encode_failed(6,8) by (simp add: fail_fast_Cons)
next
  case (write_failed olddt kust kust1 kevs newdt e)
  have "fail_fast nf True
     ([MarshalCall None] @ [WriteFileCall fs BaseKustomizationPath newdt (Some e)])"
    by (simp add: fail_fast_def)
  from fail_fast_append[OF descriptor_hooks_fail_fast[OF write_failed(4), simplified] this]
  show ?thesis
    unfolding write_failed(7,9) by (simp add: fail_fast_Cons)
next
  case (written olddt kust kust1 kevs newdt)
  have "fail_fast nf False
     ([MarshalCall None] @ [WriteFileCall fs BaseKustomizationPath newdt None])"
    by (simp add: fail_fast_def)
  from fail_fast_append[OF descriptor_hooks_fail_fast[OF written(4), simplified] this]
  show ?thesis
    unfolding written(7,8) by (simp add: fail_fast_Cons)
qed

lemma parse_fail_fast:
  fixes evs :: "'fs event list"
  assumes "parse L r overlay w = (res, w', evs)"
  shows "fail_fast nf (isl res) evs"
  using assms
proof (cases rule: parse_cases)
  case (load_failed e)
  then show ?thesis by (simp add: fail_fast_single)
next
  case (fs_failed virtfs e fs1 evs1)
  from fsmutators_fail_fast[OF fs_failed(2)] show ?thesis
    unfolding fs_failed(3,4) by (simp add: fail_fast_Cons)
next
  case (descriptor_failed virtfs fs1 w1 evs1 e fs2 evs2)
  from fail_fast_append[OF fsmutators_fail_fast[OF descriptor_failed(2), simplified]
      mutateKustomization_fail_fast[OF descriptor_failed(3)]]
  show ?thesis
    unfolding descriptor_failed(4,5) by (simp add: fail_fast_Cons)
next
  case (compose_failed virtfs fs1 w1 evs1 fs2 evs2 e)
  have "fail_fast nf True [KustomizeCall fs2 (pathJoin L ''kustomize'' overlay) (Some e)]"
    by (simp add: fail_fast_single)
  from fail_fast_append[OF fsmutators_fail_fast[OF compose_failed(2), simplified]
      fail_fast_append[OF mutateKustomization_fail_fast[OF compose_failed(3), simplified] this]]
  show ?thesis
    unfolding compose_failed(5,6) by (simp add: fail_fast_Cons)
next
  case (composed virtfs fs1 w1 evs1 fs2 evs2 rs evs3)
  have "fail_fast nf (isl res)
      (KustomizeCall fs2 (pathJoin L ''kustomize'' overlay) None # evs3)"
    using convert_resources_fail_fast[OF composed(5)]
    by (simp add: fail_fast_Cons)
  from fail_fast_append[OF fsmutators_fail_fast[OF composed(2), simplified]
      fail_fast_append[OF mutateKustomization_fail_fast[OF composed(3), simplified] this]]
  show ?thesis
    unfolding composed(6) by (simp add: fail_fast_Cons)
qed





lemma follows_refl [simp]: "follows c xs xs"
  by (simp add: follows_def)



lemma mutateKustomization_preserves:
  fixes evs :: "'fs event list"
  assumes "mutateKustomization L r fs w = (res, fs', w', evs)" "preserves f (kmutators r)"
  shows "f w' = f w"
  using assms(1)
  by (cases rule: mutateKustomization_cases)
     (auto dest: run_hooks_preserves[OF assms(2)])

lemma parse_preserves:
  fixes evs :: "'fs event list"
  assumes "parse L r overlay w = (res, w', evs)"
    "preserves f (fsmutators r)" "preserves f (kmutators r)"
  shows "f w' = f w"
  using assms(1)
proof (cases rule: parse_cases)
  case (load_failed e)
  then show ?thesis by simp
next
  case (fs_failed virtfs e fs1 evs1)
  from run_hooks_preserves[OF assms(2) fs_failed(2)] show ?thesis .
next
  case (descriptor_failed virtfs fs1 w1 evs1 e fs2 evs2)
  from run_hooks_preserves[OF assms(2) descriptor_failed(2)]
    mutateKustomization_preserves[OF descriptor_failed(3) assms(3)]
  show ?thesis by simp
next
  case (compose_failed virtfs fs1 w1 evs1 fs2 evs2 e)
  from run_hooks_preserves[OF assms(2) compose_failed(2)]
    mutateKustomization_preserves[OF compose_failed(3) assms(3)]
  show ?thesis by simp
next
  case (composed virtfs fs1 w1 evs1 fs2 evs2 rs evs3)
  from run_hooks_preserves[OF assms(2) composed(2)]
    mutateKustomization_preserves[OF composed(3) assms(3)]
  show ?thesis by simp
qed

section \<open>The log of one object\<close>

lemma omutator_events:
  fixes evs :: "'fs event list"
  assumes "run_hooks (\<lambda>i _. OMutatorCall j i) 0 hs x w = (res, x', w', evs)"
  shows "\<forall>ev\<in>set evs. \<exists>i out. ev = OMutatorCall j i out"
  using run_hooks_all[where P="\<lambda>ev. \<exists>i out. ev = OMutatorCall j i out", OF _ assms] by blast

lemma postApply_events:
  fixes evs :: "'fs event list"
  assumes "run_hooks (\<lambda>i _. PostApplyCall j i) 0 hs x w = (res, x', w', evs)"
  shows "\<forall>ev\<in>set evs. \<exists>i out. ev = PostApplyCall j i out"
  using run_hooks_all[where P="\<lambda>ev. \<exists>i out. ev = PostApplyCall j i out", OF _ assms] by blast

lemma patch_then_create_skip:
  "\<forall>ev\<in>set xs. \<not> is_patch ev \<and> \<not> is_create ev \<Longrightarrow>
   patch_then_create nf n (xs @ ys) = patch_then_create nf n ys"
proof (induction xs)
  case Nil
  then show ?case by simp
next
  case (Cons x xs)
  then show ?case by (cases x) auto
qed

lemma omutator_skip:
  fixes evs :: "'fs event list"
  assumes "run_hooks (\<lambda>i _. OMutatorCall j i) 0 hs x w = (res, x', w', evs)"
  shows "patch_then_create nf n (evs @ zs) = patch_then_create nf n zs"
  by (rule patch_then_create_skip) (use omutator_events[OF assms] in auto)

lemma postApply_skip:
  fixes evs :: "'fs event list"
  assumes "run_hooks (\<lambda>i _. PostApplyCall j i) 0 hs x w = (res, x', w', evs)"
  shows "patch_then_create nf n (evs @ zs) = patch_then_create nf n zs"
  by (rule patch_then_create_skip) (use postApply_events[OF assms] in auto)

lemma Apply_object_patch_then_create:
  fixes evs :: "'fs event list"
  assumes "Apply_object L r j obj w = (res, w', evs)"
  shows "patch_then_create (IsNotFound L) j evs \<and>
    (res = None \<longrightarrow>
      (\<forall>evs'. patch_then_create (IsNotFound L) (Suc j) evs' \<longrightarrow>
         patch_then_create (IsNotFound L) j (evs @ evs')))"
  using assms
proof (cases rule: Apply_object_cases)
  case (mutator_failed e obj1)
  then show ?thesis using omutator_skip[OF mutator_failed(1), where zs="[]"] by simp
next
  case (submit_failed obj1 w1 evs1 e obj2 evs2)
  from submit_failed(2) show ?thesis
    by (cases rule: submit_cases)
       (simp_all add: submit_failed(3,4) omutator_skip[OF submit_failed(1)])
next
  case (action_failed obj1 w1 evs1 obj2 w2 evs2 e obj3 evs3)
  have k: "\<And>n. patch_then_create (IsNotFound L) n evs3"
    using postApply_skip[OF action_failed(3), where zs="[]"] by simp
  from action_failed(2) show ?thesis
    by (cases rule: submit_cases)
       (simp_all add: action_failed(4,5) omutator_skip[OF action_failed(1)] k)
next
  case (applied obj1 w1 evs1 obj2 w2 evs2 obj3 evs3)
  note k = postApply_skip[OF applied(3)]
  have k': "\<And>n. patch_then_create (IsNotFound L) n evs3"
    using k[where zs="[]"] by simp
  from applied(2) show ?thesis
    by (cases rule: submit_cases)
       (simp_all add: applied(4,5) omutator_skip[OF applied(1)] k k')
qed

lemma submit_fail_fast:
  assumes "submit L r j obj w = (res, obj', w', evs)"
  shows "fail_fast (IsNotFound L) (res \<noteq> None) evs"
  using assms by (cases rule: submit_cases) (simp_all add: fail_fast_def)


lemma submit_events:
  assumes "submit L r j obj w = (res, obj', w', evs)" "ev \<in> set evs"
  shows "(\<exists>out. ev = PatchCall j ApplyPatch (patch_options r) out \<and>
            (\<forall>e. out = Some e \<and> \<not> IsNotFound L e \<longrightarrow>
               res = Some (Wrap ''error patching object'' e))) \<or>
         (\<exists>out. ev = CreateCall j [] out)"
  using assms by (cases rule: submit_cases) auto

lemma Apply_object_fail_fast:
  fixes evs :: "'fs event list"
  assumes "Apply_object L r j obj w = (res, w', evs)"
  shows "fail_fast (IsNotFound L) (res \<noteq> None) evs"
  using assms
proof (cases rule: Apply_object_cases)
  case (mutator_failed e obj1)
  from omutators_fail_fast[OF mutator_failed(1)] show ?thesis
    by (simp add: mutator_failed(2))
next
  case (submit_failed obj1 w1 evs1 e obj2 evs2)
  from fail_fast_append[OF omutators_fail_fast[OF submit_failed(1), simplified]
      submit_fail_fast[OF submit_failed(2)]]
  show ?thesis by (simp add: submit_failed(3,4))
next
  case (action_failed obj1 w1 evs1 obj2 w2 evs2 e obj3 evs3)
  from fail_fast_append[OF omutators_fail_fast[OF action_failed(1), simplified]
      fail_fast_append[OF submit_fail_fast[OF action_failed(2), simplified]
        postApply_fail_fast[OF action_failed(3)]]]
  show ?thesis by (simp add: action_failed(4,5))
next
  case (applied obj1 w1 evs1 obj2 w2 evs2 obj3 evs3)
  from fail_fast_append[OF omutators_fail_fast[OF applied(1), simplified]
      fail_fast_append[OF submit_fail_fast[OF applied(2), simplified]
        postApply_fail_fast[OF applied(3)]]]
  show ?thesis by (simp add: applied(4,5))
qed


lemma Apply_object_events:
  fixes evs :: "'fs event list"
  assumes "Apply_object L r j obj w = (res, w', evs)" "ev \<in> set evs"
  shows "(\<exists>i out. ev = OMutatorCall j i out) \<or>
         (\<exists>out. ev = PatchCall j ApplyPatch (patch_options r) out \<and>
            (\<forall>e. out = Some e \<and> \<not> IsNotFound L e \<longrightarrow>
               res = Some (Wrap ''error patching object'' e))) \<or>
         (\<exists>out. ev = CreateCall j [] out) \<or>
         (\<exists>i out. ev = PostApplyCall j i out)"
  using assms(1)
proof (cases rule: Apply_object_cases)
  case (mutator_failed e obj1)
  with omutator_events[OF mutator_failed(1)] assms(2) show ?thesis by blast
next
  case (submit_failed obj1 w1 evs1 e obj2 evs2)
  from assms(2) submit_failed(4) consider "ev \<in> set evs1" | "ev \<in> set evs2" by auto
  then show ?thesis
  proof cases
    case 1
    with omutator_events[OF submit_failed(1)] show ?thesis by blast
  next
    case 2
    from submit_events[OF submit_failed(2) 2] show ?thesis
      unfolding submit_failed(3) by blast
  qed
next
  case (action_failed obj1 w1 evs1 obj2 w2 evs2 e obj3 evs3)
  from assms(2) action_failed(5)
  consider "ev \<in> set evs1" | "ev \<in> set evs2" | "ev \<in> set evs3" by auto
  then show ?thesis
  proof cases
    case 1
    with omutator_events[OF action_failed(1)] show ?thesis by blast
  next
    case 2
    from submit_events[OF action_failed(2) 2] show ?thesis by auto
  next
    case 3
    with postApply_events[OF action_failed(3)] show ?thesis by blast
  qed
next
  case (applied obj1 w1 evs1 obj2 w2 evs2 obj3 evs3)
  from assms(2) applied(5)
  consider "ev \<in> set evs1" | "ev \<in> set evs2" | "ev \<in> set evs3" by auto
  then show ?thesis
  proof cases
    case 1
    with omutator_events[OF applied(1)] show ?thesis by blast
  next
    case 2
    from submit_events[OF applied(2) 2] show ?thesis by auto
  next
    case 3
    with postApply_events[OF applied(3)] show ?thesis by blast
  qed
qed




section \<open>The log of a render\<close>


lemma Apply_loop_patch_then_create:
  fixes evs :: "'fs event list"
  assumes "for_objects (Apply_object L r) j objs w = (res, w', evs)"
  shows "patch_then_create (IsNotFound L) j evs"
  by (rule for_objects_induct[OF assms,
        where Q="\<lambda>j res evs. patch_then_create (IsNotFound L) j evs \<and>
          (res = None \<longrightarrow> (\<forall>evs'. patch_then_create (IsNotFound L) (Suc j) evs' \<longrightarrow>
             patch_then_create (IsNotFound L) j (evs @ evs')))"
        and P="\<lambda>j res evs. patch_then_create (IsNotFound L) j evs"])
     (auto dest: Apply_object_patch_then_create)


lemma Apply_loop_patch_error:
  fixes evs :: "'fs event list"
  assumes "for_objects (Apply_object L r) j objs w = (res, w', evs)"
  shows "\<forall>j pt opts e. PatchCall j pt opts (Some e) \<in> set evs \<and> \<not> IsNotFound L e \<longrightarrow>
    res = Some (Wrap ''error patching object'' e)"
  by (rule for_objects_induct[OF assms,
        where Q="\<lambda>j res evs. \<forall>j pt opts e.
            PatchCall j pt opts (Some e) \<in> set evs \<and> \<not> IsNotFound L e \<longrightarrow>
            res = Some (Wrap ''error patching object'' e)"
        and P="\<lambda>j res evs. \<forall>j pt opts e.
            PatchCall j pt opts (Some e) \<in> set evs \<and> \<not> IsNotFound L e \<longrightarrow>
            res = Some (Wrap ''error patching object'' e)"])
     (auto dest!: Apply_object_events)

lemma Apply_fail_fast:
  fixes evs :: "'fs event list"
  assumes "Apply L r overlay w = (res, w', evs)"
  shows "fail_fast (IsNotFound L) (res \<noteq> None) evs"
  using assms
proof (cases rule: Apply_cases)
  case (parse_failed err)
  from parse_fail_fast[OF parse_failed(1)] show ?thesis
    by (simp add: parse_failed(2))
next
  case (parsed objs w1 evs1 evs2)
  from fail_fast_append[OF parse_fail_fast[OF parsed(1), simplified]
      for_objects_fail_fast[OF parsed(2) Apply_object_fail_fast]]
  show ?thesis by (simp add: parsed(3))
qed


lemma patch_options_eq:
  "patch_options r =
     FieldOwner (fieldOwner r) # (if forceOwner r then [ForceOwnership] else [])"
  by (simp add: patch_options_def)

lemma submit_create_after_patch:
  assumes "submit L r j obj w = (res, obj', w', evs)" "CreateCall j' opts out \<in> set evs"
  shows "j' = j \<and> opts = [] \<and>
    (\<exists>e. PatchCall j ApplyPatch (patch_options r) (Some e) \<in> set evs \<and> IsNotFound L e)"
  using assms by (cases rule: submit_cases) auto

lemma Apply_object_create_after_patch:
  fixes evs :: "'fs event list"
  assumes "Apply_object L r j obj w = (res, w', evs)" "CreateCall j' opts out \<in> set evs"
  shows "opts = [] \<and>
    (\<exists>e. PatchCall j' ApplyPatch (patch_options r) (Some e) \<in> set evs \<and> IsNotFound L e)"
  using assms(1)
proof (cases rule: Apply_object_cases)
  case (mutator_failed e obj1)
  with omutator_events[OF mutator_failed(1)] assms(2) show ?thesis by auto
next
  case (submit_failed obj1 w1 evs1 e obj2 evs2)
  from assms(2) omutator_events[OF submit_failed(1)]
  have "CreateCall j' opts out \<in> set evs2" unfolding submit_failed(4) by auto
  from submit_create_after_patch[OF submit_failed(2) this] show ?thesis
    unfolding submit_failed(4) by auto
next
  case (action_failed obj1 w1 evs1 obj2 w2 evs2 e obj3 evs3)
  from assms(2) omutator_events[OF action_failed(1)] postApply_events[OF action_failed(3)]
  have "CreateCall j' opts out \<in> set evs2" unfolding action_failed(5) by auto
  from submit_create_after_patch[OF action_failed(2) this] show ?thesis
    unfolding action_failed(5) by auto
next
  case (applied obj1 w1 evs1 obj2 w2 evs2 obj3 evs3)
  from assms(2) omutator_events[OF applied(1)] postApply_events[OF applied(3)]
  have "CreateCall j' opts out \<in> set evs2" unfolding applied(5) by auto
  from submit_create_after_patch[OF applied(2) this] show ?thesis
    unfolding applied(5) by auto
qed

lemma Apply_loop_create_after_patch:
  fixes evs :: "'fs event list"
  assumes "for_objects (Apply_object L r) j objs w = (res, w', evs)"
  shows "\<forall>j' opts out. CreateCall j' opts out \<in> set evs \<longrightarrow> opts = [] \<and>
    (\<exists>e. PatchCall j' ApplyPatch (patch_options r) (Some e) \<in> set evs \<and> IsNotFound L e)"
  by (rule for_objects_induct[OF assms,
        where Q="\<lambda>j res evs. \<forall>j' opts out. CreateCall j' opts out \<in> set evs \<longrightarrow> opts = [] \<and>
          (\<exists>e. PatchCall j' ApplyPatch (patch_options r) (Some e) \<in> set evs \<and> IsNotFound L e)"
        and P="\<lambda>j res evs. \<forall>j' opts out. CreateCall j' opts out \<in> set evs \<longrightarrow> opts = [] \<and>
          (\<exists>e. PatchCall j' ApplyPatch (patch_options r) (Some e) \<in> set evs \<and> IsNotFound L e)"])
     (simp_all add: Apply_object_create_after_patch, blast+)

lemma fold_options_fieldOwner:
  "\<forall>opt\<in>set opts. \<forall>r'. fieldOwner (opt r') = fieldOwner r' \<Longrightarrow>
   fieldOwner (fold (\<lambda>opt ctrl. opt ctrl) opts r) = fieldOwner r"
  by (induction opts arbitrary: r) simp_all

lemma options_keep_fieldOwner:
  "fieldOwner (WithForceOwnership r) = fieldOwner r"
  "fieldOwner (WithKustomizeMutator km r) = fieldOwner r"
  "fieldOwner (WithObjectMutator om r) = fieldOwner r"
  "fieldOwner (WithUnstructured r) = fieldOwner r"
  "fieldOwner (WithPostApplyAction pa r) = fieldOwner r"
  "fieldOwner (WithFSMutator fm r) = fieldOwner r"
  "fieldOwner (WithFieldOwner owner r) = owner"
  by (simp_all add: WithForceOwnership_def WithKustomizeMutator_def WithObjectMutator_def
      WithUnstructured_def WithPostApplyAction_def WithFSMutator_def WithFieldOwner_def)




























lemma patch_then_create_bound:
  "patch_then_create nf n evs \<Longrightarrow> ev \<in> set evs \<Longrightarrow> is_patch ev \<or> is_create ev \<Longrightarrow>
   \<exists>j. cluster_object ev = Some j \<and> n \<le> j"
proof (induction nf n evs rule: patch_then_create.induct)
  case (3 nf n j pt opts e evs)
  show ?case
  proof (cases "nf e")
    case True
    with "3.prems"(1) obtain copts out evs' where
      evs: "evs = CreateCall j copts out # evs'" and n: "n \<le> j"
      and p: "patch_then_create nf (Suc j) evs'"
      by (auto split: list.splits event.splits)
    from "3.prems"(2) evs consider "ev = PatchCall j pt opts (Some e)"
      | "ev = CreateCall j copts out" | "ev \<in> set evs'" by auto
    then show ?thesis
    proof cases
      case 3
      from "3.IH"[OF True evs refl p 3 "3.prems"(3)] n show ?thesis by auto
    qed (use n in auto)
  next
    case False
    with "3.prems" show ?thesis by auto
  qed
qed auto

lemma patch_then_create_success_no_create:
  "patch_then_create nf n evs \<Longrightarrow> PatchCall j pt opts None \<in> set evs \<Longrightarrow>
   CreateCall j copts out \<notin> set evs"
proof (induction nf n evs rule: patch_then_create.induct)
  case (2 nf n j' pt' opts' evs)
  from "2.prems"(1) have p: "patch_then_create nf (Suc j') evs" by simp
  show ?case
  proof (cases "PatchCall j pt opts None \<in> set evs")
    case True
    from "2.IH"[OF p True] show ?thesis by simp
  next
    case False
    with "2.prems"(2) have "j = j'" by auto
    with patch_then_create_bound[OF p, of "CreateCall j copts out"] show ?thesis by auto
  qed
next
  case (3 nf n j' pt' opts' e evs)
  show ?case
  proof (cases "nf e")
    case True
    with "3.prems"(1) obtain copts' out' evs' where
      evs: "evs = CreateCall j' copts' out' # evs'"
      and p: "patch_then_create nf (Suc j') evs'"
      by (auto split: list.splits event.splits)
    from "3.prems"(2) evs have m: "PatchCall j pt opts None \<in> set evs'" by auto
    from patch_then_create_bound[OF p m] have "j' < j" by auto
    with "3.IH"[OF True evs refl p m] evs show ?thesis by auto
  next
    case False
    with "3.prems" show ?thesis by auto
  qed
qed auto

lemma submit_not_found_creates:
  assumes "submit L r j obj w = (res, obj', w', evs)"
    "PatchCall j' pt opts (Some e) \<in> set evs" "IsNotFound L e"
  shows "\<exists>out. CreateCall j' [] out \<in> set evs"
  using assms by (cases rule: submit_cases) auto

lemma Apply_object_not_found_creates:
  fixes evs :: "'fs event list"
  assumes "Apply_object L r j obj w = (res, w', evs)"
    "PatchCall j' pt opts (Some e) \<in> set evs" "IsNotFound L e"
  shows "\<exists>out. CreateCall j' [] out \<in> set evs"
  using assms(1)
proof (cases rule: Apply_object_cases)
  case (mutator_failed e obj1)
  with omutator_events[OF mutator_failed(1)] assms(2) show ?thesis by auto
next
  case (submit_failed obj1 w1 evs1 e' obj2 evs2)
  from assms(2) omutator_events[OF submit_failed(1)]
  have "PatchCall j' pt opts (Some e) \<in> set evs2" unfolding submit_failed(4) by auto
  from submit_not_found_creates[OF submit_failed(2) this assms(3)] show ?thesis
    unfolding submit_failed(4) by auto
next
  case (action_failed obj1 w1 evs1 obj2 w2 evs2 e' obj3 evs3)
  from assms(2) omutator_events[OF action_failed(1)] postApply_events[OF action_failed(3)]
  have "PatchCall j' pt opts (Some e) \<in> set evs2" unfolding action_failed(5) by auto
  from submit_not_found_creates[OF action_failed(2) this assms(3)] show ?thesis
    unfolding action_failed(5) by auto
next
  case (applied obj1 w1 evs1 obj2 w2 evs2 obj3 evs3)
  from assms(2) omutator_events[OF applied(1)] postApply_events[OF applied(3)]
  have "PatchCall j' pt opts (Some e) \<in> set evs2" unfolding applied(5) by auto
  from submit_not_found_creates[OF applied(2) this assms(3)] show ?thesis
    unfolding applied(5) by auto
qed

lemma Apply_loop_not_found_creates:
  fixes evs :: "'fs event list"
  assumes "for_objects (Apply_object L r) j objs w = (res, w', evs)"
  shows "\<forall>j' pt opts e. PatchCall j' pt opts (Some e) \<in> set evs \<and> IsNotFound L e \<longrightarrow>
    (\<exists>out. CreateCall j' [] out \<in> set evs)"
  by (rule for_objects_induct[OF assms,
        where Q="\<lambda>j res evs. \<forall>j' pt opts e.
          PatchCall j' pt opts (Some e) \<in> set evs \<and> IsNotFound L e \<longrightarrow>
          (\<exists>out. CreateCall j' [] out \<in> set evs)"
        and P="\<lambda>j res evs. \<forall>j' pt opts e.
          PatchCall j' pt opts (Some e) \<in> set evs \<and> IsNotFound L e \<longrightarrow>
          (\<exists>out. CreateCall j' [] out \<in> set evs)"])
     (blast dest: Apply_object_not_found_creates, simp, blast, fastforce)

section \<open>The calls of a recorded render\<close>

lemma recorded_simps [simp]:
  "cli (recorded r) = recording_client (cli r)"
  "from_emb (recorded r) = from_emb r"
  "fieldOwner (recorded r) = fieldOwner r"
  "forceOwner (recorded r) = forceOwner r"
  "unstructured (recorded r) = unstructured r"
  "kmutators (recorded r) = recording_hooks KMutatorRan 0 (kmutators r)"
  "omutators (recorded r) = recording_hooks OMutatorRan 0 (omutators r)"
  "postApply (recorded r) = recording_hooks PostApplyRan 0 (postApply r)"
  "fsmutators (recorded r) = recording_hooks FSMutatorRan 0 (fsmutators r)"
  by (simp_all add: recorded_def)

lemma recording_client_simps [simp]:
  "Patch (recording_client c) obj pt opts (w, tr) =
     (case Patch c obj pt opts w of
        (out, obj', w') \<Rightarrow> (out, obj', (w', tr @ [Patched obj pt opts out obj'])))"
  "Create (recording_client c) obj opts (w, tr) =
     (case Create c obj opts w of
        (out, obj', w') \<Rightarrow> (out, obj', (w', tr @ [Created obj opts out obj'])))"
  "DeleteObj (recording_client c) obj opts (w, tr) =
     (case DeleteObj c obj opts w of
        (out, obj', w') \<Rightarrow> (out, obj', (w', tr @ [Deleted obj opts out obj'])))"
  "SchemeNew (recording_client c) = SchemeNew c"
  by (simp_all add: recording_client_def)

lemma length_recording_hooks [simp]: "length (recording_hooks mk i hs) = length hs"
  by (induction hs arbitrary: i) simp_all

lemma recording_hooks_Nil [simp]: "(recording_hooks mk i hs = []) = (hs = [])"
  by (cases hs) simp_all

lemma patch_options_recorded [simp]: "patch_options (recorded r) = patch_options r"
  by (simp add: patch_options_def)

lemma flow_append:
  "flow inp outp x xs y \<Longrightarrow> flow inp outp y ys z \<Longrightarrow> flow inp outp x (xs @ ys) z"
  by (induction xs arbitrary: x) (auto split: option.splits)

lemma flow_flows: "flow inp outp x xs y \<Longrightarrow> flows inp outp x xs"
  by (induction xs arbitrary: x) (auto split: option.splits)

lemma flow_single:
  "inp c = Some x \<Longrightarrow> outp c = Some y \<Longrightarrow> flow inp outp x [c] y"
  by simp

lemma run_hooks_recording:
  assumes run: "run_hooks mkev i hs x w = (res, x', w', evs)"
    and ev: "\<And>m y out y'. f (mk m y out y') = mkev m y out"
    and inp: "\<And>m y out y'. inp (mk m y out y') = Some y"
    and outp: "\<And>m y out y'. outp (mk m y out y') = Some y'"
    and P: "\<And>m y out y'. P (mk m y out y')"
  shows "\<exists>calls. (\<forall>tr. run_hooks mkev i (recording_hooks mk i hs) x (w, tr) =
        (res, x', (w', tr @ calls), evs)) \<and>
      evs = map f calls \<and> flow inp outp x calls x' \<and> (\<forall>c\<in>set calls. P c)"
  using run
proof (induction hs arbitrary: i x w res x' w' evs)
  case Nil
  then show ?case by simp
next
  case (Cons h hs)
  obtain out x1 w1 where h: "h x w = (out, x1, w1)" by (rule prod_cases3)
  show ?case
  proof (cases out)
    case (Some e)
    with Cons.prems h have "res = Some e" "x' = x1" "w' = w1" "evs = [mkev i x (Some e)]"
      by auto
    with h Some show ?thesis
      by (intro exI[of _ "[mk i x (Some e) x1]"]) (simp add: recording_def ev inp outp P)
  next
    case None
    obtain res2 x2 w2 evs2 where
      rest: "run_hooks mkev (Suc i) hs x1 w1 = (res2, x2, w2, evs2)"
      by (rule prod_cases4)
    with Cons.prems h None have eq: "res = res2" "x' = x2" "w' = w2"
      "evs = mkev i x None # evs2" by auto
    from Cons.IH[OF rest] obtain calls where
      c: "\<And>tr. run_hooks mkev (Suc i) (recording_hooks mk (Suc i) hs) x1 (w1, tr) =
          (res2, x2, (w2, tr @ calls), evs2)"
        "evs2 = map f calls" "flow inp outp x1 calls x2" "\<forall>c\<in>set calls. P c"
      by blast
    show ?thesis
      by (intro exI[of _ "mk i x None x1 # calls"])
         (simp add: recording_def h None c eq ev inp outp P)
  qed
qed

lemma omutators_recording:
  fixes evs :: "'fs event list"
  assumes "run_hooks (\<lambda>i _. OMutatorCall j i) 0 (omutators r) obj w = (res, obj', w', evs)"
  shows "\<exists>calls :: ('fs, 'k, 'o) call list.
      (\<forall>tr. run_hooks (\<lambda>i _. OMutatorCall j i) 0 (recording_hooks OMutatorRan 0 (omutators r)) obj (w, tr) =
        (res, obj', (w', tr @ calls), evs)) \<and>
      evs = map (event_of j) calls \<and> flow handed returned obj calls obj' \<and>
      (\<forall>c\<in>set calls. is_omutator_ran c)"
  using run_hooks_recording[OF assms, where mk=OMutatorRan and f="event_of j"
      and inp=handed and outp=returned and P=is_omutator_ran]
  by simp

lemma postApply_recording:
  fixes evs :: "'fs event list"
  assumes "run_hooks (\<lambda>i _. PostApplyCall j i) 0 (postApply r) obj w = (res, obj', w', evs)"
  shows "\<exists>calls :: ('fs, 'k, 'o) call list.
      (\<forall>tr. run_hooks (\<lambda>i _. PostApplyCall j i) 0 (recording_hooks PostApplyRan 0 (postApply r)) obj (w, tr) =
        (res, obj', (w', tr @ calls), evs)) \<and>
      evs = map (event_of j) calls \<and> flow handed returned obj calls obj' \<and>
      (\<forall>c\<in>set calls. is_post_apply_ran c)"
  using run_hooks_recording[OF assms, where mk=PostApplyRan and f="event_of j"
      and inp=handed and outp=returned and P=is_post_apply_ran]
  by simp

lemma fsmutators_recording:
  fixes evs :: "'fs event list"
  assumes "run_hooks FSMutatorCall 0 (fsmutators r) fs w = (res, fs', w', evs)"
  shows "\<exists>calls :: ('fs, 'k, 'o) call list.
      (\<forall>tr. run_hooks FSMutatorCall 0 (recording_hooks FSMutatorRan 0 (fsmutators r)) fs (w, tr) =
        (res, fs', (w', tr @ calls), evs)) \<and>
      evs = map (event_of 0) calls \<and> flow handed_tree returned_tree fs calls fs' \<and>
      (\<forall>c\<in>set calls. is_fsmutator_ran c)"
  using run_hooks_recording[OF assms, where mk=FSMutatorRan and f="event_of 0"
      and inp=handed_tree and outp=returned_tree and P=is_fsmutator_ran]
  by simp

lemma kmutators_recording:
  fixes evs :: "'fs event list"
  assumes "run_hooks (\<lambda>i _. KMutatorCall i) 0 (kmutators r) k w = (res, k', w', evs)"
  shows "\<exists>calls :: ('fs, 'k, 'o) call list.
      (\<forall>tr. run_hooks (\<lambda>i _. KMutatorCall i) 0 (recording_hooks KMutatorRan 0 (kmutators r)) k (w, tr) =
        (res, k', (w', tr @ calls), evs)) \<and>
      evs = map (event_of 0) calls \<and> flow handed_descriptor returned_descriptor k calls k' \<and>
      (\<forall>c\<in>set calls. is_kmutator_ran c)"
  using run_hooks_recording[OF assms, where mk=KMutatorRan and f="event_of 0"
      and inp=handed_descriptor and outp=returned_descriptor and P=is_kmutator_ran]
  by simp

lemma submit_recording:
  assumes "submit L r j obj w = (res, obj', w', evs)"
  shows "\<exists>calls :: ('fs, 'k, 'o) call list.
      (\<forall>tr. submit L (recorded r) j obj (w, tr) = (res, obj', (w', tr @ calls), evs)) \<and>
      evs = map (event_of j) calls \<and> flow handed returned obj calls obj' \<and>
      (\<forall>c\<in>set calls. is_patched c \<or> is_created c) \<and>
      length (filter is_patched calls) = 1 \<and>
      (\<exists>out obj1 rest. calls = Patched obj ApplyPatch (patch_options r) out obj1 # rest \<and>
         (case out of
            None \<Rightarrow> rest = [] \<and> res = None
          | Some e \<Rightarrow>
              if IsNotFound L e
              then \<exists>out2. rest = [Created obj1 [] out2 obj'] \<and>
                     res = map_option (Wrap ''error creating object'') out2
              else rest = [] \<and> res = Some (Wrap ''error patching object'' e))) \<and>
      (\<forall>rest'. submissions (IsNotFound L) (patch_options r) (calls @ rest') =
         (if res = None then submissions (IsNotFound L) (patch_options r) rest'
          else rest' = []))"
  using assms
proof (cases rule: submit_cases)
  case patched
  then show ?thesis
    by (intro exI[of _ "[Patched obj ApplyPatch (patch_options r) None obj']"])
       (simp add: submit_def Let_def)
next
  case (patch_failed err)
  then show ?thesis
    by (intro exI[of _ "[Patched obj ApplyPatch (patch_options r) (Some err) obj']"])
       (simp add: submit_def Let_def)
next
  case (created err obj1 w1)
  then show ?thesis
    by (intro exI[of _ "[Patched obj ApplyPatch (patch_options r) (Some err) obj1,
          Created obj1 [] None obj']"])
       (simp add: submit_def Let_def)
next
  case (create_failed err obj1 w1 err2)
  then show ?thesis
    by (intro exI[of _ "[Patched obj ApplyPatch (patch_options r) (Some err) obj1,
          Created obj1 [] (Some err2) obj']"])
       (simp add: submit_def Let_def)
qed

lemma submissions_skip:
  "\<forall>c\<in>set xs. \<not> to_cluster c \<Longrightarrow> submissions nf po (xs @ ys) = submissions nf po ys"
proof (induction xs)
  case Nil
  then show ?case by simp
next
  case (Cons x xs)
  then show ?case by (cases x) (auto simp: to_cluster_def)
qed

lemma hook_not_to_cluster:
  "is_omutator_ran c \<Longrightarrow> \<not> to_cluster c"
  "is_post_apply_ran c \<Longrightarrow> \<not> to_cluster c"
  "is_fsmutator_ran c \<Longrightarrow> \<not> to_cluster c"
  "is_kmutator_ran c \<Longrightarrow> \<not> to_cluster c"
  by (cases c; simp add: to_cluster_def)+

lemma filter_cluster_hooks:
  assumes "\<forall>c\<in>set xs. \<not> to_cluster c"
  shows "filter is_patched xs = []" "filter is_created xs = []" "filter is_deleted xs = []"
  using assms by (auto simp: filter_empty_conv to_cluster_def)

lemma run_hooks_failed_nonempty:
  "run_hooks mk i hs x w = (Some e, x', w', evs) \<Longrightarrow> evs \<noteq> []"
  by (induction hs arbitrary: i x w evs)
     (auto split: prod.splits option.splits)

lemma Apply_object_recording:
  fixes evs :: "'fs event list"
  assumes "Apply_object L r j obj w = (res, w', evs)"
  shows "\<exists>seg :: ('fs, 'k, 'o) call list.
      (\<forall>tr. Apply_object L (recorded r) j obj (w, tr) = (res, (w', tr @ seg), evs)) \<and>
      evs = map (event_of j) seg \<and> flows handed returned obj seg \<and> seg \<noteq> [] \<and>
      submissions (IsNotFound L) (patch_options r) seg \<and>
      (res = None \<longrightarrow>
         (\<forall>rest. submissions (IsNotFound L) (patch_options r) (seg @ rest) =
            submissions (IsNotFound L) (patch_options r) rest)) \<and>
      length (filter is_patched seg) \<le> 1 \<and>
      (res = None \<longrightarrow> length (filter is_patched seg) = 1)"
  using assms
proof (cases rule: Apply_object_cases)
  case (mutator_failed e obj1)
  from omutators_recording[OF mutator_failed(1)] obtain oseg :: "('fs, 'k, 'o) call list"
    where o: "\<And>tr. run_hooks (\<lambda>i _. OMutatorCall j i) 0 (recording_hooks OMutatorRan 0 (omutators r)) obj (w, tr) =
        (Some e, obj1, (w', tr @ oseg), evs)"
      "evs = map (event_of j) oseg" "flow handed returned obj oseg obj1"
      "\<forall>c\<in>set oseg. is_omutator_ran c"
    by blast
  have ne: "oseg \<noteq> []"
    using run_hooks_failed_nonempty[OF mutator_failed(1)] o(2) by auto
  have nc: "\<forall>c\<in>set oseg. \<not> to_cluster c"
    using o(4) by (blast dest: hook_not_to_cluster)
  show ?thesis
    using o(2) flow_flows[OF o(3)] ne submissions_skip[OF nc, of _ _ "[]"] mutator_failed(2)
      filter_cluster_hooks(1)[OF nc]
    by (intro exI[of _ oseg]) (simp add: Apply_object_def o(1))
next
  case (submit_failed obj1 w1 evs1 e obj2 evs2)
  from omutators_recording[OF submit_failed(1)] obtain oseg :: "('fs, 'k, 'o) call list"
    where o: "\<And>tr. run_hooks (\<lambda>i _. OMutatorCall j i) 0 (recording_hooks OMutatorRan 0 (omutators r)) obj (w, tr) =
        (None, obj1, (w1, tr @ oseg), evs1)"
      "evs1 = map (event_of j) oseg" "flow handed returned obj oseg obj1"
      "\<forall>c\<in>set oseg. is_omutator_ran c"
    by blast
  from submit_recording[OF submit_failed(2)] obtain sseg :: "('fs, 'k, 'o) call list"
    where s: "\<And>tr. submit L (recorded r) j obj1 (w1, tr) = (Some e, obj2, (w', tr @ sseg), evs2)"
      "evs2 = map (event_of j) sseg" "flow handed returned obj1 sseg obj2"
      "\<forall>rest'. submissions (IsNotFound L) (patch_options r) (sseg @ rest') = (rest' = [])"
      "sseg \<noteq> []" "length (filter is_patched sseg) = 1"
    by auto
  have nc: "\<forall>c\<in>set oseg. \<not> to_cluster c"
    using o(4) by (blast dest: hook_not_to_cluster)
  have sub: "submissions (IsNotFound L) (patch_options r) (oseg @ sseg)"
    using submissions_skip[OF nc] s(4)[rule_format, of "[]"] by simp
  show ?thesis
    using submit_failed(3,4) o(2) s(2,5,6) flow_flows[OF flow_append[OF o(3) s(3)]] sub
      filter_cluster_hooks(1)[OF nc]
    by (intro exI[of _ "oseg @ sseg"]) (simp add: Apply_object_def o(1) s(1))
next
  case (action_failed obj1 w1 evs1 obj2 w2 evs2 e obj3 evs3)
  from omutators_recording[OF action_failed(1)] obtain oseg :: "('fs, 'k, 'o) call list"
    where o: "\<And>tr. run_hooks (\<lambda>i _. OMutatorCall j i) 0 (recording_hooks OMutatorRan 0 (omutators r)) obj (w, tr) =
        (None, obj1, (w1, tr @ oseg), evs1)"
      "evs1 = map (event_of j) oseg" "flow handed returned obj oseg obj1"
      "\<forall>c\<in>set oseg. is_omutator_ran c"
    by blast
  from submit_recording[OF action_failed(2)] obtain sseg :: "('fs, 'k, 'o) call list"
    where s: "\<And>tr. submit L (recorded r) j obj1 (w1, tr) = (None, obj2, (w2, tr @ sseg), evs2)"
      "evs2 = map (event_of j) sseg" "flow handed returned obj1 sseg obj2"
      "\<forall>rest'. submissions (IsNotFound L) (patch_options r) (sseg @ rest') =
         submissions (IsNotFound L) (patch_options r) rest'"
      "sseg \<noteq> []" "length (filter is_patched sseg) = 1"
    by auto
  from postApply_recording[OF action_failed(3)] obtain pseg :: "('fs, 'k, 'o) call list"
    where p: "\<And>tr. run_hooks (\<lambda>i _. PostApplyCall j i) 0 (recording_hooks PostApplyRan 0 (postApply r)) obj2 (w2, tr) =
        (Some e, obj3, (w', tr @ pseg), evs3)"
      "evs3 = map (event_of j) pseg" "flow handed returned obj2 pseg obj3"
      "\<forall>c\<in>set pseg. is_post_apply_ran c"
    by blast
  have nc: "\<forall>c\<in>set oseg. \<not> to_cluster c"
    using o(4) by (blast dest: hook_not_to_cluster)
  have ncp: "\<forall>c\<in>set pseg. \<not> to_cluster c"
    using p(4) by (blast dest: hook_not_to_cluster)
  have sub: "submissions (IsNotFound L) (patch_options r) (oseg @ sseg @ pseg)"
    using submissions_skip[OF nc] s(4)[rule_format, of pseg]
      submissions_skip[OF ncp, of _ _ "[]"] by simp
  show ?thesis
    using action_failed(4,5) o(2) s(2,5,6) p(2)
      flow_flows[OF flow_append[OF o(3) flow_append[OF s(3) p(3)]]] sub
      filter_cluster_hooks(1)[OF nc] filter_cluster_hooks(1)[OF ncp]
    by (intro exI[of _ "oseg @ sseg @ pseg"]) (simp add: Apply_object_def o(1) s(1) p(1))
next
  case (applied obj1 w1 evs1 obj2 w2 evs2 obj3 evs3)
  from omutators_recording[OF applied(1)] obtain oseg :: "('fs, 'k, 'o) call list"
    where o: "\<And>tr. run_hooks (\<lambda>i _. OMutatorCall j i) 0 (recording_hooks OMutatorRan 0 (omutators r)) obj (w, tr) =
        (None, obj1, (w1, tr @ oseg), evs1)"
      "evs1 = map (event_of j) oseg" "flow handed returned obj oseg obj1"
      "\<forall>c\<in>set oseg. is_omutator_ran c"
    by blast
  from submit_recording[OF applied(2)] obtain sseg :: "('fs, 'k, 'o) call list"
    where s: "\<And>tr. submit L (recorded r) j obj1 (w1, tr) = (None, obj2, (w2, tr @ sseg), evs2)"
      "evs2 = map (event_of j) sseg" "flow handed returned obj1 sseg obj2"
      "\<forall>rest'. submissions (IsNotFound L) (patch_options r) (sseg @ rest') =
         submissions (IsNotFound L) (patch_options r) rest'"
      "sseg \<noteq> []" "length (filter is_patched sseg) = 1"
    by auto
  from postApply_recording[OF applied(3)] obtain pseg :: "('fs, 'k, 'o) call list"
    where p: "\<And>tr. run_hooks (\<lambda>i _. PostApplyCall j i) 0 (recording_hooks PostApplyRan 0 (postApply r)) obj2 (w2, tr) =
        (None, obj3, (w', tr @ pseg), evs3)"
      "evs3 = map (event_of j) pseg" "flow handed returned obj2 pseg obj3"
      "\<forall>c\<in>set pseg. is_post_apply_ran c"
    by blast
  have nc: "\<forall>c\<in>set oseg. \<not> to_cluster c"
    using o(4) by (blast dest: hook_not_to_cluster)
  have ncp: "\<forall>c\<in>set pseg. \<not> to_cluster c"
    using p(4) by (blast dest: hook_not_to_cluster)
  have sub: "submissions (IsNotFound L) (patch_options r) ((oseg @ sseg @ pseg) @ rest) =
      submissions (IsNotFound L) (patch_options r) rest" for rest
    using submissions_skip[OF nc, of _ _ "sseg @ pseg @ rest"]
      s(4)[rule_format, of "pseg @ rest"]
      submissions_skip[OF ncp, of _ _ rest] by simp
  show ?thesis
    using applied(4,5) o(2) s(2,5,6) p(2)
      flow_flows[OF flow_append[OF o(3) flow_append[OF s(3) p(3)]]] sub sub[of "[]"]
      filter_cluster_hooks(1)[OF nc] filter_cluster_hooks(1)[OF ncp]
    by (intro exI[of _ "oseg @ sseg @ pseg"])
       (simp add: Apply_object_def o(1) s(1) p(1) del: append_assoc)
qed

lemma Delete_object_recording:
  fixes evs :: "'fs event list"
  assumes "Delete_object L r j obj w = (res, w', evs)"
  shows "\<exists>seg :: ('fs, 'k, 'o) call list.
      (\<forall>tr. Delete_object L (recorded r) j obj (w, tr) = (res, (w', tr @ seg), evs)) \<and>
      evs = map (event_of j) seg \<and> flows handed returned obj seg \<and> seg \<noteq> [] \<and>
      (\<forall>c\<in>set seg. is_omutator_ran c \<or> is_deleted c) \<and>
      (\<forall>x opts out x'. Deleted x opts out x' \<in> set seg \<longrightarrow> opts = []) \<and>
      length (filter is_deleted seg) \<le> 1 \<and>
      (res = None \<longrightarrow> length (filter is_deleted seg) = 1)"
  using assms
proof (cases rule: Delete_object_cases)
  case (mutator_failed e obj1)
  from omutators_recording[OF mutator_failed(1)] obtain oseg :: "('fs, 'k, 'o) call list"
    where o: "\<And>tr. run_hooks (\<lambda>i _. OMutatorCall j i) 0
          (recording_hooks OMutatorRan 0 (omutators r)) obj (w, tr) =
        (Some e, obj1, (w', tr @ oseg), evs)"
      "evs = map (event_of j) oseg" "flow handed returned obj oseg obj1"
      "\<forall>c\<in>set oseg. is_omutator_ran c"
    by blast
  have ne: "oseg \<noteq> []"
    using run_hooks_failed_nonempty[OF mutator_failed(1)] o(2) by auto
  have nd: "Deleted x opts out x' \<notin> set oseg" for x opts out x'
    using o(4) by auto
  have fd: "filter is_deleted oseg = []"
    using o(4) by (intro filter_cluster_hooks) (blast dest: hook_not_to_cluster)
  show ?thesis
    using o(2,4) flow_flows[OF o(3)] ne mutator_failed(2) nd fd
    by (intro exI[of _ oseg]) (simp add: Delete_object_def o(1))
next
  case (deleted obj1 w1 evs1 obj2)
  from omutators_recording[OF deleted(1)] obtain oseg :: "('fs, 'k, 'o) call list"
    where o: "\<And>tr. run_hooks (\<lambda>i _. OMutatorCall j i) 0
          (recording_hooks OMutatorRan 0 (omutators r)) obj (w, tr) =
        (None, obj1, (w1, tr @ oseg), evs1)"
      "evs1 = map (event_of j) oseg" "flow handed returned obj oseg obj1"
      "\<forall>c\<in>set oseg. is_omutator_ran c"
    by blast
  have nd: "Deleted x opts out x' \<notin> set oseg" for x opts out x'
    using o(4) by auto
  have fd: "filter is_deleted oseg = []"
    using o(4) by (intro filter_cluster_hooks) (blast dest: hook_not_to_cluster)
  have fl: "flow handed returned obj (oseg @ [Deleted obj1 [] None obj2]) obj2"
    by (rule flow_append[OF o(3)]) simp
  show ?thesis
    using o(2,4) flow_flows[OF fl] deleted(2,3,4) nd fd
    by (intro exI[of _ "oseg @ [Deleted obj1 [] None obj2]"])
       (auto simp add: Delete_object_def o(1))
next
  case (absent obj1 w1 evs1 err obj2)
  from omutators_recording[OF absent(1)] obtain oseg :: "('fs, 'k, 'o) call list"
    where o: "\<And>tr. run_hooks (\<lambda>i _. OMutatorCall j i) 0
          (recording_hooks OMutatorRan 0 (omutators r)) obj (w, tr) =
        (None, obj1, (w1, tr @ oseg), evs1)"
      "evs1 = map (event_of j) oseg" "flow handed returned obj oseg obj1"
      "\<forall>c\<in>set oseg. is_omutator_ran c"
    by blast
  have nd: "Deleted x opts out x' \<notin> set oseg" for x opts out x'
    using o(4) by auto
  have fd: "filter is_deleted oseg = []"
    using o(4) by (intro filter_cluster_hooks) (blast dest: hook_not_to_cluster)
  have fl: "flow handed returned obj (oseg @ [Deleted obj1 [] (Some err) obj2]) obj2"
    by (rule flow_append[OF o(3)]) simp
  show ?thesis
    using o(2,4) flow_flows[OF fl] absent(2,3,4,5) nd fd
    by (intro exI[of _ "oseg @ [Deleted obj1 [] (Some err) obj2]"])
       (auto simp add: Delete_object_def o(1))
next
  case (delete_failed obj1 w1 evs1 err obj2)
  from omutators_recording[OF delete_failed(1)] obtain oseg :: "('fs, 'k, 'o) call list"
    where o: "\<And>tr. run_hooks (\<lambda>i _. OMutatorCall j i) 0
          (recording_hooks OMutatorRan 0 (omutators r)) obj (w, tr) =
        (None, obj1, (w1, tr @ oseg), evs1)"
      "evs1 = map (event_of j) oseg" "flow handed returned obj oseg obj1"
      "\<forall>c\<in>set oseg. is_omutator_ran c"
    by blast
  have nd: "Deleted x opts out x' \<notin> set oseg" for x opts out x'
    using o(4) by auto
  have fd: "filter is_deleted oseg = []"
    using o(4) by (intro filter_cluster_hooks) (blast dest: hook_not_to_cluster)
  have fl: "flow handed returned obj (oseg @ [Deleted obj1 [] (Some err) obj2]) obj2"
    by (rule flow_append[OF o(3)]) simp
  show ?thesis
    using o(2,4) flow_flows[OF fl] delete_failed(2,3,4,5) nd fd
    by (intro exI[of _ "oseg @ [Deleted obj1 [] (Some err) obj2]"])
       (auto simp add: Delete_object_def o(1))
qed

lemma for_objects_recording:
  assumes run: "for_objects body j objs w = (res, w', evs)"
    and body: "\<And>j obj w res w' evs. body j obj w = (res, w', evs) \<Longrightarrow>
       \<exists>seg. (\<forall>tr. body' j obj (w, tr) = (res, (w', tr @ seg), evs)) \<and> Q j obj res evs seg"
    and nil: "\<And>j. P j [] None [] []"
    and stop: "\<And>j obj objs e evs seg. Q j obj (Some e) evs seg \<Longrightarrow>
       P j (obj # objs) (Some e) evs [seg]"
    and step: "\<And>j obj objs res evs evs' seg segs.
       Q j obj None evs seg \<Longrightarrow> P (Suc j) objs res evs' segs \<Longrightarrow>
       P j (obj # objs) res (evs @ evs') (seg # segs)"
  shows "\<exists>segs. (\<forall>tr. for_objects body' j objs (w, tr) = (res, (w', tr @ concat segs), evs)) \<and>
      P j objs res evs segs"
  using run
proof (induction objs arbitrary: j w res w' evs)
  case Nil
  then show ?case using nil by (intro exI[of _ "[]"]) auto
next
  case (Cons obj objs)
  obtain r1 w1 evs1 where b: "body j obj w = (r1, w1, evs1)" by (rule prod_cases3)
  from body[OF b] obtain seg where
    seg: "\<And>tr. body' j obj (w, tr) = (r1, (w1, tr @ seg), evs1)" "Q j obj r1 evs1 seg"
    by blast
  show ?case
  proof (cases r1)
    case None
    obtain r2 w2 evs2 where l: "for_objects body (Suc j) objs w1 = (r2, w2, evs2)"
      by (rule prod_cases3)
    from Cons.prems b None l have eq: "res = r2" "w' = w2" "evs = evs1 @ evs2" by auto
    from Cons.IH[OF l] obtain segs where
      segs: "\<And>tr. for_objects body' (Suc j) objs (w1, tr) = (r2, (w2, tr @ concat segs), evs2)"
        "P (Suc j) objs r2 evs2 segs"
      by blast
    from seg(2) None have "Q j obj None evs1 seg" by simp
    from step[OF this segs(2)] show ?thesis
      by (intro exI[of _ "seg # segs"]) (simp add: seg(1) None segs(1) eq)
  next
    case (Some e)
    with Cons.prems b have eq: "res = Some e" "w' = w1" "evs = evs1" by auto
    from seg(2) Some have "Q j obj (Some e) evs1 seg" by simp
    from stop[OF this] show ?thesis
      by (intro exI[of _ "[seg]"]) (simp add: seg(1) Some eq)
  qed
qed

lemma collab_event_of [simp]: "collab (event_of j c)"
  by (cases c) simp_all

lemma filter_collab_events [simp]: "filter collab (map (event_of j) cs) = map (event_of j) cs"
  by (induction cs) simp_all

lemma typedObject_recorded [simp]: "typedObject L (recorded r) rsc = typedObject L r rsc"
  by (simp add: typedObject_def)

lemma convert_resources_recorded [simp]:
  "convert_resources L (recorded r) j rs objs = convert_resources L r j rs objs"
  by (induction rs arbitrary: j objs) (simp_all split: sum.splits prod.splits)

lemma mutateKustomization_recording:
  fixes evs :: "'fs event list"
  assumes "mutateKustomization L r fs w = (res, fs', w', evs)"
  shows "\<exists>kcalls :: ('fs, 'k, 'o) call list.
      (\<forall>tr. mutateKustomization L (recorded r) fs (w, tr) = (res, fs', (w', tr @ kcalls), evs)) \<and>
      filter collab evs = map (event_of 0) kcalls \<and>
      (\<forall>c\<in>set kcalls. is_kmutator_ran c) \<and>
      (\<forall>olddt kust. ReadFile L fs BaseKustomizationPath = Inr olddt \<and>
         yamlUnmarshal L olddt = Inr kust \<longrightarrow>
         flows handed_descriptor returned_descriptor kust kcalls)"
  using assms
proof (cases rule: mutateKustomization_cases)
  case skipped
  then show ?thesis
    by (intro exI[of _ "[]"]) (simp add: mutateKustomization_def)
next
  case (read_failed e)
  then show ?thesis
    by (intro exI[of _ "[]"]) (simp add: mutateKustomization_def)
next
  case (decode_failed olddt e)
  then show ?thesis
    by (intro exI[of _ "[]"]) (simp add: mutateKustomization_def)
next
  case (hook_failed olddt kust e kust1 kevs)
  from kmutators_recording[OF hook_failed(4)] obtain kcalls :: "('fs, 'k, 'o) call list"
    where k: "\<And>tr. run_hooks (\<lambda>i _. KMutatorCall i) 0
          (recording_hooks KMutatorRan 0 (kmutators r)) kust (w, tr) =
        (Some e, kust1, (w', tr @ kcalls), kevs)"
      "kevs = map (event_of 0) kcalls"
      "flow handed_descriptor returned_descriptor kust kcalls kust1"
      "\<forall>c\<in>set kcalls. is_kmutator_ran c"
    by blast
  show ?thesis
    using hook_failed(1,2,3,5,6,7) k(2,4) flow_flows[OF k(3)]
    by (intro exI[of _ kcalls]) (simp add: mutateKustomization_def k(1))
next
  case (encode_failed olddt kust kust1 kevs e)
  from kmutators_recording[OF encode_failed(4)] obtain kcalls :: "('fs, 'k, 'o) call list"
    where k: "\<And>tr. run_hooks (\<lambda>i _. KMutatorCall i) 0
          (recording_hooks KMutatorRan 0 (kmutators r)) kust (w, tr) =
        (None, kust1, (w', tr @ kcalls), kevs)"
      "kevs = map (event_of 0) kcalls"
      "flow handed_descriptor returned_descriptor kust kcalls kust1"
      "\<forall>c\<in>set kcalls. is_kmutator_ran c"
    by blast
  show ?thesis
    using encode_failed(1,2,3,5,6,7,8) k(2,4) flow_flows[OF k(3)]
    by (intro exI[of _ kcalls]) (simp add: mutateKustomization_def k(1))
next
  case (write_failed olddt kust kust1 kevs newdt e)
  from kmutators_recording[OF write_failed(4)] obtain kcalls :: "('fs, 'k, 'o) call list"
    where k: "\<And>tr. run_hooks (\<lambda>i _. KMutatorCall i) 0
          (recording_hooks KMutatorRan 0 (kmutators r)) kust (w, tr) =
        (None, kust1, (w', tr @ kcalls), kevs)"
      "kevs = map (event_of 0) kcalls"
      "flow handed_descriptor returned_descriptor kust kcalls kust1"
      "\<forall>c\<in>set kcalls. is_kmutator_ran c"
    by blast
  show ?thesis
    using write_failed(1,2,3,5,6,7,8,9) k(2,4) flow_flows[OF k(3)]
    by (intro exI[of _ kcalls]) (simp add: mutateKustomization_def k(1))
next
  case (written olddt kust kust1 kevs newdt)
  from kmutators_recording[OF written(4)] obtain kcalls :: "('fs, 'k, 'o) call list"
    where k: "\<And>tr. run_hooks (\<lambda>i _. KMutatorCall i) 0
          (recording_hooks KMutatorRan 0 (kmutators r)) kust (w, tr) =
        (None, kust1, (w', tr @ kcalls), kevs)"
      "kevs = map (event_of 0) kcalls"
      "flow handed_descriptor returned_descriptor kust kcalls kust1"
      "\<forall>c\<in>set kcalls. is_kmutator_ran c"
    by blast
  show ?thesis
    using written(1,2,3,5,6,7,8) k(2,4) flow_flows[OF k(3)]
    by (intro exI[of _ kcalls]) (simp add: mutateKustomization_def k(1))
qed

lemma parse_recording:
  fixes evs :: "'fs event list"
  assumes "parse L r overlay w = (pres, w', evs)"
  shows "\<exists>(fcalls :: ('fs, 'k, 'o) call list) kcalls.
      (\<forall>tr. parse L (recorded r) overlay (w, tr) = (pres, (w', tr @ fcalls @ kcalls), evs)) \<and>
      filter collab evs = map (event_of 0) (fcalls @ kcalls) \<and>
      (\<forall>c\<in>set fcalls. is_fsmutator_ran c) \<and> (\<forall>c\<in>set kcalls. is_kmutator_ran c) \<and>
      (\<forall>t0. LoadFS L (from_emb r) = Inr t0 \<longrightarrow> flows handed_tree returned_tree t0 fcalls) \<and>
      (\<forall>objs. pres = Inr objs \<longrightarrow>
         (\<exists>t0 t1 wa eva t2 evb rs evc.
            LoadFS L (from_emb r) = Inr t0 \<and>
            run_hooks FSMutatorCall 0 (fsmutators r) t0 w = (None, t1, wa, eva) \<and>
            flow handed_tree returned_tree t0 fcalls t1 \<and>
            mutateKustomization L r t1 wa = (None, t2, w', evb) \<and>
            (\<forall>olddt kust. ReadFile L t1 BaseKustomizationPath = Inr olddt \<and>
               yamlUnmarshal L olddt = Inr kust \<longrightarrow>
               flows handed_descriptor returned_descriptor kust kcalls) \<and>
            Run L t2 (pathJoin L ''kustomize'' overlay) = Inr rs \<and>
            convert_resources L r 0 rs [] = (Inr objs, evc)))"
  using assms
proof (cases rule: parse_cases)
  case (load_failed e)
  then show ?thesis
    by (intro exI[of _ "[]"]) (simp add: parse_def)
next
  case (fs_failed virtfs e fs1 evs1)
  from fsmutators_recording[OF fs_failed(2)] obtain fcalls :: "('fs, 'k, 'o) call list"
    where f: "\<And>tr. run_hooks FSMutatorCall 0 (recording_hooks FSMutatorRan 0 (fsmutators r))
          virtfs (w, tr) = (Some e, fs1, (w', tr @ fcalls), evs1)"
      "evs1 = map (event_of 0) fcalls" "flow handed_tree returned_tree virtfs fcalls fs1"
      "\<forall>c\<in>set fcalls. is_fsmutator_ran c"
    by blast
  show ?thesis
    using fs_failed(1,3,4) f(2,4) flow_flows[OF f(3)]
    by (intro exI[of _ fcalls] exI[of _ "[]"]) (simp add: parse_def f(1))
next
  case (descriptor_failed virtfs fs1 w1 evs1 e fs2 evs2)
  from fsmutators_recording[OF descriptor_failed(2)] obtain fcalls :: "('fs, 'k, 'o) call list"
    where f: "\<And>tr. run_hooks FSMutatorCall 0 (recording_hooks FSMutatorRan 0 (fsmutators r))
          virtfs (w, tr) = (None, fs1, (w1, tr @ fcalls), evs1)"
      "evs1 = map (event_of 0) fcalls" "flow handed_tree returned_tree virtfs fcalls fs1"
      "\<forall>c\<in>set fcalls. is_fsmutator_ran c"
    by blast
  from mutateKustomization_recording[OF descriptor_failed(3)]
  obtain kcalls :: "('fs, 'k, 'o) call list"
    where k: "\<And>tr. mutateKustomization L (recorded r) fs1 (w1, tr) =
        (Some e, fs2, (w', tr @ kcalls), evs2)"
      "filter collab evs2 = map (event_of 0) kcalls" "\<forall>c\<in>set kcalls. is_kmutator_ran c"
    by blast
  show ?thesis
    using descriptor_failed(1,4,5) f(2,4) k(2,3) flow_flows[OF f(3)]
    by (intro exI[of _ fcalls] exI[of _ kcalls]) (simp add: parse_def f(1) k(1))
next
  case (compose_failed virtfs fs1 w1 evs1 fs2 evs2 e)
  from fsmutators_recording[OF compose_failed(2)] obtain fcalls :: "('fs, 'k, 'o) call list"
    where f: "\<And>tr. run_hooks FSMutatorCall 0 (recording_hooks FSMutatorRan 0 (fsmutators r))
          virtfs (w, tr) = (None, fs1, (w1, tr @ fcalls), evs1)"
      "evs1 = map (event_of 0) fcalls" "flow handed_tree returned_tree virtfs fcalls fs1"
      "\<forall>c\<in>set fcalls. is_fsmutator_ran c"
    by blast
  from mutateKustomization_recording[OF compose_failed(3)]
  obtain kcalls :: "('fs, 'k, 'o) call list"
    where k: "\<And>tr. mutateKustomization L (recorded r) fs1 (w1, tr) =
        (None, fs2, (w', tr @ kcalls), evs2)"
      "filter collab evs2 = map (event_of 0) kcalls" "\<forall>c\<in>set kcalls. is_kmutator_ran c"
    by blast
  show ?thesis
    using compose_failed(1,4,5,6) f(2,4) k(2,3) flow_flows[OF f(3)]
    by (intro exI[of _ fcalls] exI[of _ kcalls]) (simp add: parse_def f(1) k(1))
next
  case (composed virtfs fs1 w1 evs1 fs2 evs2 rs evs3)
  from fsmutators_recording[OF composed(2)] obtain fcalls :: "('fs, 'k, 'o) call list"
    where f: "\<And>tr. run_hooks FSMutatorCall 0 (recording_hooks FSMutatorRan 0 (fsmutators r))
          virtfs (w, tr) = (None, fs1, (w1, tr @ fcalls), evs1)"
      "evs1 = map (event_of 0) fcalls" "flow handed_tree returned_tree virtfs fcalls fs1"
      "\<forall>c\<in>set fcalls. is_fsmutator_ran c"
    by blast
  from mutateKustomization_recording[OF composed(3)]
  obtain kcalls :: "('fs, 'k, 'o) call list"
    where k: "\<And>tr. mutateKustomization L (recorded r) fs1 (w1, tr) =
        (None, fs2, (w', tr @ kcalls), evs2)"
      "filter collab evs2 = map (event_of 0) kcalls" "\<forall>c\<in>set kcalls. is_kmutator_ran c"
      "\<forall>olddt kust. ReadFile L fs1 BaseKustomizationPath = Inr olddt \<and>
         yamlUnmarshal L olddt = Inr kust \<longrightarrow>
         flows handed_descriptor returned_descriptor kust kcalls"
    by blast
  have ce: "filter collab evs3 = []"
    using convert_resources_all[OF _ composed(5), where P="\<lambda>ev. \<not> collab ev"]
    by (auto simp: filter_empty_conv)
  have run: "\<forall>tr. parse L (recorded r) overlay (w, tr) = (pres, (w', tr @ fcalls @ kcalls), evs)"
    using composed(1,4,5,6) by (simp add: parse_def f(1) k(1))
  have ag: "filter collab evs = map (event_of 0) (fcalls @ kcalls)"
    using composed(6) f(2) k(2) ce by simp
  have fl: "\<forall>t0. LoadFS L (from_emb r) = Inr t0 \<longrightarrow> flows handed_tree returned_tree t0 fcalls"
    using composed(1) flow_flows[OF f(3)] by simp
  have dec: "\<forall>objs. pres = Inr objs \<longrightarrow>
         (\<exists>t0 t1 wa eva t2 evb rs evc.
            LoadFS L (from_emb r) = Inr t0 \<and>
            run_hooks FSMutatorCall 0 (fsmutators r) t0 w = (None, t1, wa, eva) \<and>
            flow handed_tree returned_tree t0 fcalls t1 \<and>
            mutateKustomization L r t1 wa = (None, t2, w', evb) \<and>
            (\<forall>olddt kust. ReadFile L t1 BaseKustomizationPath = Inr olddt \<and>
               yamlUnmarshal L olddt = Inr kust \<longrightarrow>
               flows handed_descriptor returned_descriptor kust kcalls) \<and>
            Run L t2 (pathJoin L ''kustomize'' overlay) = Inr rs \<and>
            convert_resources L r 0 rs [] = (Inr objs, evc))"
    using composed(1,2,3,4,5) f(3) k(4) by blast
  from run ag f(4) k(3) fl dec show ?thesis by blast
qed

lemma Apply_loop_recording:
  fixes evs :: "'fs event list"
  assumes "for_objects (Apply_object L r) j objs w = (res, w', evs)"
  shows "\<exists>segs :: ('fs, 'k, 'o) call list list.
      (\<forall>tr. for_objects (Apply_object L (recorded r)) j objs (w, tr) =
         (res, (w', tr @ concat segs), evs)) \<and>
      (evs = events_of j segs \<and> length segs \<le> length objs \<and>
      (res = None \<longrightarrow> length segs = length objs) \<and>
      (res \<noteq> None \<longrightarrow> segs \<noteq> []) \<and>
      list_all2 (\<lambda>obj seg. flows handed returned obj seg \<and> seg \<noteq> [])
        (take (length segs) objs) segs \<and>
      submissions (IsNotFound L) (patch_options r) (concat segs) \<and>
      list_all (\<lambda>seg. length (filter is_patched seg) \<le> 1) segs \<and>
      (res = None \<longrightarrow> list_all (\<lambda>seg. length (filter is_patched seg) = 1) segs))"
proof (rule for_objects_recording[OF assms,
        where Q="\<lambda>j obj res evs (seg :: ('fs, 'k, 'o) call list). evs = map (event_of j) seg \<and>
            flows handed returned obj seg \<and> seg \<noteq> [] \<and>
            submissions (IsNotFound L) (patch_options r) seg \<and>
            (res = None \<longrightarrow>
               (\<forall>rest. submissions (IsNotFound L) (patch_options r) (seg @ rest) =
                  submissions (IsNotFound L) (patch_options r) rest)) \<and>
            length (filter is_patched seg) \<le> 1 \<and>
            (res = None \<longrightarrow> length (filter is_patched seg) = 1)"
        and P="\<lambda>j objs res evs (segs :: ('fs, 'k, 'o) call list list). evs = events_of j segs \<and> length segs \<le> length objs \<and>
            (res = None \<longrightarrow> length segs = length objs) \<and>
            (res \<noteq> None \<longrightarrow> segs \<noteq> []) \<and>
            list_all2 (\<lambda>obj seg. flows handed returned obj seg \<and> seg \<noteq> [])
              (take (length segs) objs) segs \<and>
            submissions (IsNotFound L) (patch_options r) (concat segs) \<and>
            list_all (\<lambda>seg. length (filter is_patched seg) \<le> 1) segs \<and>
            (res = None \<longrightarrow> list_all (\<lambda>seg. length (filter is_patched seg) = 1) segs)"])
  fix j obj w res w' and evs :: "'fs event list"
  assume "Apply_object L r j obj w = (res, w', evs)"
  then show "\<exists>seg :: ('fs, 'k, 'o) call list.
      (\<forall>tr. Apply_object L (recorded r) j obj (w, tr) = (res, (w', tr @ seg), evs)) \<and>
      (evs = map (event_of j) seg \<and> flows handed returned obj seg \<and> seg \<noteq> [] \<and>
      submissions (IsNotFound L) (patch_options r) seg \<and>
      (res = None \<longrightarrow>
         (\<forall>rest. submissions (IsNotFound L) (patch_options r) (seg @ rest) =
            submissions (IsNotFound L) (patch_options r) rest)) \<and>
      length (filter is_patched seg) \<le> 1 \<and>
      (res = None \<longrightarrow> length (filter is_patched seg) = 1))"
    by (rule Apply_object_recording)
qed simp_all

lemma Delete_loop_recording:
  fixes evs :: "'fs event list"
  assumes "for_objects (Delete_object L r) j objs w = (res, w', evs)"
  shows "\<exists>segs :: ('fs, 'k, 'o) call list list.
      (\<forall>tr. for_objects (Delete_object L (recorded r)) j objs (w, tr) =
         (res, (w', tr @ concat segs), evs)) \<and>
      (evs = events_of j segs \<and> length segs \<le> length objs \<and>
      (res = None \<longrightarrow> length segs = length objs) \<and>
      (res \<noteq> None \<longrightarrow> segs \<noteq> []) \<and>
      list_all2 (\<lambda>obj seg. flows handed returned obj seg \<and> seg \<noteq> [])
        (take (length segs) objs) segs \<and>
      (\<forall>c\<in>set (concat segs). is_omutator_ran c \<or> is_deleted c) \<and>
      (\<forall>x opts out x'. Deleted x opts out x' \<in> set (concat segs) \<longrightarrow> opts = []) \<and>
      list_all (\<lambda>seg. length (filter is_deleted seg) \<le> 1) segs \<and>
      (res = None \<longrightarrow> list_all (\<lambda>seg. length (filter is_deleted seg) = 1) segs))"
proof (rule for_objects_recording[OF assms,
        where Q="\<lambda>j obj res evs (seg :: ('fs, 'k, 'o) call list). evs = map (event_of j) seg \<and>
            flows handed returned obj seg \<and> seg \<noteq> [] \<and>
            (\<forall>c\<in>set seg. is_omutator_ran c \<or> is_deleted c) \<and>
            (\<forall>x opts out x'. Deleted x opts out x' \<in> set seg \<longrightarrow> opts = []) \<and>
            length (filter is_deleted seg) \<le> 1 \<and>
            (res = None \<longrightarrow> length (filter is_deleted seg) = 1)"
        and P="\<lambda>j objs res evs (segs :: ('fs, 'k, 'o) call list list). evs = events_of j segs \<and> length segs \<le> length objs \<and>
            (res = None \<longrightarrow> length segs = length objs) \<and>
            (res \<noteq> None \<longrightarrow> segs \<noteq> []) \<and>
            list_all2 (\<lambda>obj seg. flows handed returned obj seg \<and> seg \<noteq> [])
              (take (length segs) objs) segs \<and>
            (\<forall>c\<in>set (concat segs). is_omutator_ran c \<or> is_deleted c) \<and>
            (\<forall>x opts out x'. Deleted x opts out x' \<in> set (concat segs) \<longrightarrow> opts = []) \<and>
            list_all (\<lambda>seg. length (filter is_deleted seg) \<le> 1) segs \<and>
            (res = None \<longrightarrow> list_all (\<lambda>seg. length (filter is_deleted seg) = 1) segs)"])
  fix j obj w res w' and evs :: "'fs event list"
  assume "Delete_object L r j obj w = (res, w', evs)"
  then show "\<exists>seg :: ('fs, 'k, 'o) call list.
      (\<forall>tr. Delete_object L (recorded r) j obj (w, tr) = (res, (w', tr @ seg), evs)) \<and>
      (evs = map (event_of j) seg \<and> flows handed returned obj seg \<and> seg \<noteq> [] \<and>
      (\<forall>c\<in>set seg. is_omutator_ran c \<or> is_deleted c) \<and>
      (\<forall>x opts out x'. Deleted x opts out x' \<in> set seg \<longrightarrow> opts = []) \<and>
      length (filter is_deleted seg) \<le> 1 \<and>
      (res = None \<longrightarrow> length (filter is_deleted seg) = 1))"
    by (rule Delete_object_recording)
next
  fix j obj objs res and evs evs' :: "'fs event list"
    and seg :: "('fs, 'k, 'o) call list" and segs :: "('fs, 'k, 'o) call list list"
  assume q: "evs = map (event_of j) seg \<and> flows handed returned obj seg \<and> seg \<noteq> [] \<and>
      (\<forall>c\<in>set seg. is_omutator_ran c \<or> is_deleted c) \<and>
      (\<forall>x opts out x'. Deleted x opts out x' \<in> set seg \<longrightarrow> opts = []) \<and>
      length (filter is_deleted seg) \<le> 1 \<and>
      (None = (None :: error option) \<longrightarrow> length (filter is_deleted seg) = 1)"
    and p: "evs' = events_of (Suc j) segs \<and> length segs \<le> length objs \<and>
      (res = None \<longrightarrow> length segs = length objs) \<and> (res \<noteq> None \<longrightarrow> segs \<noteq> []) \<and>
      list_all2 (\<lambda>obj seg. flows handed returned obj seg \<and> seg \<noteq> [])
        (take (length segs) objs) segs \<and>
      (\<forall>c\<in>set (concat segs). is_omutator_ran c \<or> is_deleted c) \<and>
      (\<forall>x opts out x'. Deleted x opts out x' \<in> set (concat segs) \<longrightarrow> opts = []) \<and>
      list_all (\<lambda>seg. length (filter is_deleted seg) \<le> 1) segs \<and>
      (res = None \<longrightarrow> list_all (\<lambda>seg. length (filter is_deleted seg) = 1) segs)"
  have a: "\<forall>c\<in>set (concat (seg # segs)). is_omutator_ran c \<or> is_deleted c"
    using q p by (simp add: ball_Un)
  have b: "\<forall>x opts out x'. Deleted x opts out x' \<in> set (concat (seg # segs)) \<longrightarrow> opts = []"
    using q p by (simp, blast)
  from q p a b show "evs @ evs' = events_of j (seg # segs) \<and>
      length (seg # segs) \<le> length (obj # objs) \<and>
      (res = None \<longrightarrow> length (seg # segs) = length (obj # objs)) \<and>
      (res \<noteq> None \<longrightarrow> seg # segs \<noteq> []) \<and>
      list_all2 (\<lambda>obj seg. flows handed returned obj seg \<and> seg \<noteq> [])
        (take (length (seg # segs)) (obj # objs)) (seg # segs) \<and>
      (\<forall>c\<in>set (concat (seg # segs)). is_omutator_ran c \<or> is_deleted c) \<and>
      (\<forall>x opts out x'. Deleted x opts out x' \<in> set (concat (seg # segs)) \<longrightarrow> opts = []) \<and>
      list_all (\<lambda>seg. length (filter is_deleted seg) \<le> 1) (seg # segs) \<and>
      (res = None \<longrightarrow> list_all (\<lambda>seg. length (filter is_deleted seg) = 1) (seg # segs))"
    by simp
qed simp_all

lemma parse_recorded [consumes 1, case_names recorded]:
  fixes evs :: "'fs event list" and r :: "('fs, 'k, 'ro, 'o, 'w) Renderer"
  assumes "parse L r overlay w = (pres, w', evs)"
  obtains fcalls kcalls :: "('fs, 'k, 'o) call list" where
    "\<forall>tr. parse L (recorded r) overlay (w, tr) = (pres, (w', tr @ fcalls @ kcalls), evs)"
    "filter collab evs = map (event_of 0) (fcalls @ kcalls)"
    "\<forall>c\<in>set fcalls. is_fsmutator_ran c" "\<forall>c\<in>set kcalls. is_kmutator_ran c"
    "\<forall>t0. LoadFS L (from_emb r) = Inr t0 \<longrightarrow> flows handed_tree returned_tree t0 fcalls"
    "\<forall>objs. pres = Inr objs \<longrightarrow>
         (\<exists>t0 t1 wa eva t2 evb rs evc.
            LoadFS L (from_emb r) = Inr t0 \<and>
            run_hooks FSMutatorCall 0 (fsmutators r) t0 w = (None, t1, wa, eva) \<and>
            flow handed_tree returned_tree t0 fcalls t1 \<and>
            mutateKustomization L r t1 wa = (None, t2, w', evb) \<and>
            (\<forall>olddt kust. ReadFile L t1 BaseKustomizationPath = Inr olddt \<and>
               yamlUnmarshal L olddt = Inr kust \<longrightarrow>
               flows handed_descriptor returned_descriptor kust kcalls) \<and>
            Run L t2 (pathJoin L ''kustomize'' overlay) = Inr rs \<and>
            convert_resources L r 0 rs [] = (Inr objs, evc))"
  using parse_recording[OF assms]
  apply (elim exE conjE)
  apply (erule that)
      apply assumption+
  done

lemma Apply_loop_recorded [consumes 1, case_names recorded]:
  fixes evs :: "'fs event list" and r :: "('fs, 'k, 'ro, 'o, 'w) Renderer"
  assumes "for_objects (Apply_object L r) j objs w = (res, w', evs)"
  obtains segs :: "('fs, 'k, 'o) call list list" where
    "\<forall>tr. for_objects (Apply_object L (recorded r)) j objs (w, tr) =
         (res, (w', tr @ concat segs), evs)"
    "evs = events_of j segs" "length segs \<le> length objs"
    "res = None \<longrightarrow> length segs = length objs"
    "res \<noteq> None \<longrightarrow> segs \<noteq> []"
    "list_all2 (\<lambda>obj seg. flows handed returned obj seg \<and> seg \<noteq> [])
        (take (length segs) objs) segs"
    "submissions (IsNotFound L) (patch_options r) (concat segs)"
    "list_all (\<lambda>seg. length (filter is_patched seg) \<le> 1) segs"
    "res = None \<longrightarrow> list_all (\<lambda>seg. length (filter is_patched seg) = 1) segs"
  using Apply_loop_recording[OF assms]
  apply (elim exE conjE)
  apply (erule that)
         apply assumption+
  done

lemma Delete_loop_recorded [consumes 1, case_names recorded]:
  fixes evs :: "'fs event list" and r :: "('fs, 'k, 'ro, 'o, 'w) Renderer"
  assumes "for_objects (Delete_object L r) j objs w = (res, w', evs)"
  obtains segs :: "('fs, 'k, 'o) call list list" where
    "\<forall>tr. for_objects (Delete_object L (recorded r)) j objs (w, tr) =
         (res, (w', tr @ concat segs), evs)"
    "evs = events_of j segs" "length segs \<le> length objs"
    "res = None \<longrightarrow> length segs = length objs"
    "res \<noteq> None \<longrightarrow> segs \<noteq> []"
    "list_all2 (\<lambda>obj seg. flows handed returned obj seg \<and> seg \<noteq> [])
        (take (length segs) objs) segs"
    "\<forall>c\<in>set (concat segs). is_omutator_ran c \<or> is_deleted c"
    "\<forall>x opts out x'. Deleted x opts out x' \<in> set (concat segs) \<longrightarrow> opts = []"
    "list_all (\<lambda>seg. length (filter is_deleted seg) \<le> 1) segs"
    "res = None \<longrightarrow> list_all (\<lambda>seg. length (filter is_deleted seg) = 1) segs"
  using Delete_loop_recording[OF assms]
  apply (elim exE conjE)
  apply (erule that)
          apply assumption+
  done

lemma Apply_recorded [consumes 1, case_names recorded]:
  fixes evs :: "'fs event list" and r :: "('fs, 'k, 'ro, 'o, 'w) Renderer"
  assumes "Apply L r overlay w = (res, w', evs)"
  obtains fcalls kcalls :: "('fs, 'k, 'o) call list" and segs pres w1 evs1 where
    "\<forall>tr. Apply L (recorded r) overlay (w, tr) =
       (res, (w', tr @ fcalls @ kcalls @ concat segs), evs)"
    "parse L r overlay w = (pres, w1, evs1)"
    "\<forall>tr. parse L (recorded r) overlay (w, tr) = (pres, (w1, tr @ fcalls @ kcalls), evs1)"
    "filter collab evs1 = map (event_of 0) (fcalls @ kcalls)"
    "\<forall>c\<in>set fcalls. is_fsmutator_ran c" "\<forall>c\<in>set kcalls. is_kmutator_ran c"
    "\<forall>t0. LoadFS L (from_emb r) = Inr t0 \<longrightarrow> flows handed_tree returned_tree t0 fcalls"
    "\<forall>objs. pres = Inr objs \<longrightarrow>
         (\<exists>t0 t1 wa eva t2 evb rs evc.
            LoadFS L (from_emb r) = Inr t0 \<and>
            run_hooks FSMutatorCall 0 (fsmutators r) t0 w = (None, t1, wa, eva) \<and>
            flow handed_tree returned_tree t0 fcalls t1 \<and>
            mutateKustomization L r t1 wa = (None, t2, w1, evb) \<and>
            (\<forall>olddt kust. ReadFile L t1 BaseKustomizationPath = Inr olddt \<and>
               yamlUnmarshal L olddt = Inr kust \<longrightarrow>
               flows handed_descriptor returned_descriptor kust kcalls) \<and>
            Run L t2 (pathJoin L ''kustomize'' overlay) = Inr rs \<and>
            convert_resources L r 0 rs [] = (Inr objs, evc))"
    "evs = evs1 @ events_of 0 segs"
    "\<forall>e. pres = Inl e \<longrightarrow>
       segs = [] \<and> res = Some (Wrap ''error parsing kustomize files'' e) \<and> w' = w1"
    "\<forall>objs. pres = Inr objs \<longrightarrow>
       for_objects (Apply_object L r) 0 objs w1 = (res, w', events_of 0 segs) \<and>
       length segs \<le> length objs \<and> (res = None \<longrightarrow> length segs = length objs) \<and>
       (res \<noteq> None \<longrightarrow> segs \<noteq> []) \<and>
       list_all2 (\<lambda>obj seg. flows handed returned obj seg \<and> seg \<noteq> [])
         (take (length segs) objs) segs"
    "submissions (IsNotFound L) (patch_options r) (concat segs)"
    "list_all (\<lambda>seg. length (filter is_patched seg) \<le> 1) segs"
    "res = None \<longrightarrow> list_all (\<lambda>seg. length (filter is_patched seg) = 1) segs"
  using assms
proof (cases rule: Apply_cases)
  case (parse_failed err)
  from parse_failed(1) show ?thesis
  proof (cases rule: parse_recorded)
    case (recorded fcalls kcalls)
    show ?thesis
    proof (rule that[of fcalls kcalls "[]" "Inl err" w' evs])
      show "\<forall>tr. Apply L (recorded r) overlay (w, tr) =
         (res, (w', tr @ fcalls @ kcalls @ concat []), evs)"
        by (simp add: Apply_def recorded(1) parse_failed(2))
      show "\<forall>tr. parse L (recorded r) overlay (w, tr) =
         (Inl err, (w', tr @ fcalls @ kcalls), evs)"
        by (fact recorded(1))
      show "filter collab evs = map (event_of 0) (fcalls @ kcalls)" by (fact recorded(2))
      show "\<forall>c\<in>set fcalls. is_fsmutator_ran c" by (fact recorded(3))
      show "\<forall>c\<in>set kcalls. is_kmutator_ran c" by (fact recorded(4))
      show "\<forall>t0. LoadFS L (from_emb r) = Inr t0 \<longrightarrow>
          flows handed_tree returned_tree t0 fcalls" by (fact recorded(5))
    qed (simp_all add: parse_failed)
  qed
next
  case (parsed objs w1 evs1 evs2)
  from parsed(1) show ?thesis
  proof (cases rule: parse_recorded)
    case p: (recorded fcalls kcalls)
    from parsed(2) show ?thesis
    proof (cases rule: Apply_loop_recorded)
      case s: (recorded segs)
      show ?thesis
      proof (rule that[of fcalls kcalls segs "Inr objs" w1 evs1])
        show "\<forall>tr. Apply L (recorded r) overlay (w, tr) =
           (res, (w', tr @ fcalls @ kcalls @ concat segs), evs)"
          by (simp add: Apply_def p(1) s(1) parsed(3))
        show "parse L r overlay w = (Inr objs, w1, evs1)" by (rule parsed(1))
        show "\<forall>tr. parse L (recorded r) overlay (w, tr) =
           (Inr objs, (w1, tr @ fcalls @ kcalls), evs1)"
          by (fact p(1))
        show "filter collab evs1 = map (event_of 0) (fcalls @ kcalls)" by (fact p(2))
        show "\<forall>c\<in>set fcalls. is_fsmutator_ran c" by (fact p(3))
        show "\<forall>c\<in>set kcalls. is_kmutator_ran c" by (fact p(4))
        show "\<forall>t0. LoadFS L (from_emb r) = Inr t0 \<longrightarrow>
            flows handed_tree returned_tree t0 fcalls" by (fact p(5))
        show "\<forall>objs'. Inr objs = Inr objs' \<longrightarrow>
         (\<exists>t0 t1 wa eva t2 evb rs evc.
            LoadFS L (from_emb r) = Inr t0 \<and>
            run_hooks FSMutatorCall 0 (fsmutators r) t0 w = (None, t1, wa, eva) \<and>
            flow handed_tree returned_tree t0 fcalls t1 \<and>
            mutateKustomization L r t1 wa = (None, t2, w1, evb) \<and>
            (\<forall>olddt kust. ReadFile L t1 BaseKustomizationPath = Inr olddt \<and>
               yamlUnmarshal L olddt = Inr kust \<longrightarrow>
               flows handed_descriptor returned_descriptor kust kcalls) \<and>
            Run L t2 (pathJoin L ''kustomize'' overlay) = Inr rs \<and>
            convert_resources L r 0 rs [] = (Inr objs', evc))"
          using p(6) by simp
        show "evs = evs1 @ events_of 0 segs" using parsed(3) s(2) by simp
        show "\<forall>objs'. Inr objs = Inr objs' \<longrightarrow>
           for_objects (Apply_object L r) 0 objs' w1 = (res, w', events_of 0 segs) \<and>
           length segs \<le> length objs' \<and> (res = None \<longrightarrow> length segs = length objs') \<and>
           (res \<noteq> None \<longrightarrow> segs \<noteq> []) \<and>
           list_all2 (\<lambda>obj seg. flows handed returned obj seg \<and> seg \<noteq> [])
             (take (length segs) objs') segs"
          using parsed(2) s(2-6) by simp
      qed (use s(7-) in simp_all)
    qed
  qed
qed

lemma Delete_recorded [consumes 1, case_names recorded]:
  fixes evs :: "'fs event list" and r :: "('fs, 'k, 'ro, 'o, 'w) Renderer"
  assumes "Delete L r overlay w = (res, w', evs)"
  obtains fcalls kcalls :: "('fs, 'k, 'o) call list" and segs pres w1 evs1 where
    "\<forall>tr. Delete L (recorded r) overlay (w, tr) =
       (res, (w', tr @ fcalls @ kcalls @ concat segs), evs)"
    "parse L r overlay w = (pres, w1, evs1)"
    "\<forall>tr. parse L (recorded r) overlay (w, tr) = (pres, (w1, tr @ fcalls @ kcalls), evs1)"
    "filter collab evs1 = map (event_of 0) (fcalls @ kcalls)"
    "\<forall>c\<in>set fcalls. is_fsmutator_ran c" "\<forall>c\<in>set kcalls. is_kmutator_ran c"
    "\<forall>t0. LoadFS L (from_emb r) = Inr t0 \<longrightarrow> flows handed_tree returned_tree t0 fcalls"
    "\<forall>objs. pres = Inr objs \<longrightarrow>
         (\<exists>t0 t1 wa eva t2 evb rs evc.
            LoadFS L (from_emb r) = Inr t0 \<and>
            run_hooks FSMutatorCall 0 (fsmutators r) t0 w = (None, t1, wa, eva) \<and>
            flow handed_tree returned_tree t0 fcalls t1 \<and>
            mutateKustomization L r t1 wa = (None, t2, w1, evb) \<and>
            (\<forall>olddt kust. ReadFile L t1 BaseKustomizationPath = Inr olddt \<and>
               yamlUnmarshal L olddt = Inr kust \<longrightarrow>
               flows handed_descriptor returned_descriptor kust kcalls) \<and>
            Run L t2 (pathJoin L ''kustomize'' overlay) = Inr rs \<and>
            convert_resources L r 0 rs [] = (Inr objs, evc))"
    "evs = evs1 @ events_of 0 segs"
    "\<forall>e. pres = Inl e \<longrightarrow>
       segs = [] \<and> res = Some (Wrap ''error parsing kustomize files'' e) \<and> w' = w1"
    "\<forall>objs. pres = Inr objs \<longrightarrow>
       for_objects (Delete_object L r) 0 objs w1 = (res, w', events_of 0 segs) \<and>
       length segs \<le> length objs \<and> (res = None \<longrightarrow> length segs = length objs) \<and>
       (res \<noteq> None \<longrightarrow> segs \<noteq> []) \<and>
       list_all2 (\<lambda>obj seg. flows handed returned obj seg \<and> seg \<noteq> [])
         (take (length segs) objs) segs"
    "\<forall>c\<in>set (concat segs). is_omutator_ran c \<or> is_deleted c"
    "\<forall>x opts out x'. Deleted x opts out x' \<in> set (concat segs) \<longrightarrow> opts = []"
    "list_all (\<lambda>seg. length (filter is_deleted seg) \<le> 1) segs"
    "res = None \<longrightarrow> list_all (\<lambda>seg. length (filter is_deleted seg) = 1) segs"
  using assms
proof (cases rule: Delete_cases)
  case (parse_failed err)
  from parse_failed(1) show ?thesis
  proof (cases rule: parse_recorded)
    case (recorded fcalls kcalls)
    show ?thesis
    proof (rule that[of fcalls kcalls "[]" "Inl err" w' evs])
      show "\<forall>tr. Delete L (recorded r) overlay (w, tr) =
         (res, (w', tr @ fcalls @ kcalls @ concat []), evs)"
        by (simp add: Delete_def recorded(1) parse_failed(2))
      show "\<forall>tr. parse L (recorded r) overlay (w, tr) =
         (Inl err, (w', tr @ fcalls @ kcalls), evs)"
        by (fact recorded(1))
      show "filter collab evs = map (event_of 0) (fcalls @ kcalls)" by (fact recorded(2))
      show "\<forall>c\<in>set fcalls. is_fsmutator_ran c" by (fact recorded(3))
      show "\<forall>c\<in>set kcalls. is_kmutator_ran c" by (fact recorded(4))
      show "\<forall>t0. LoadFS L (from_emb r) = Inr t0 \<longrightarrow>
          flows handed_tree returned_tree t0 fcalls" by (fact recorded(5))
    qed (simp_all add: parse_failed)
  qed
next
  case (parsed objs w1 evs1 evs2)
  from parsed(1) show ?thesis
  proof (cases rule: parse_recorded)
    case p: (recorded fcalls kcalls)
    from parsed(2) show ?thesis
    proof (cases rule: Delete_loop_recorded)
      case s: (recorded segs)
      show ?thesis
      proof (rule that[of fcalls kcalls segs "Inr objs" w1 evs1])
        show "\<forall>tr. Delete L (recorded r) overlay (w, tr) =
           (res, (w', tr @ fcalls @ kcalls @ concat segs), evs)"
          by (simp add: Delete_def p(1) s(1) parsed(3))
        show "parse L r overlay w = (Inr objs, w1, evs1)" by (rule parsed(1))
        show "\<forall>tr. parse L (recorded r) overlay (w, tr) =
           (Inr objs, (w1, tr @ fcalls @ kcalls), evs1)"
          by (fact p(1))
        show "filter collab evs1 = map (event_of 0) (fcalls @ kcalls)" by (fact p(2))
        show "\<forall>c\<in>set fcalls. is_fsmutator_ran c" by (fact p(3))
        show "\<forall>c\<in>set kcalls. is_kmutator_ran c" by (fact p(4))
        show "\<forall>t0. LoadFS L (from_emb r) = Inr t0 \<longrightarrow>
            flows handed_tree returned_tree t0 fcalls" by (fact p(5))
        show "\<forall>objs'. Inr objs = Inr objs' \<longrightarrow>
         (\<exists>t0 t1 wa eva t2 evb rs evc.
            LoadFS L (from_emb r) = Inr t0 \<and>
            run_hooks FSMutatorCall 0 (fsmutators r) t0 w = (None, t1, wa, eva) \<and>
            flow handed_tree returned_tree t0 fcalls t1 \<and>
            mutateKustomization L r t1 wa = (None, t2, w1, evb) \<and>
            (\<forall>olddt kust. ReadFile L t1 BaseKustomizationPath = Inr olddt \<and>
               yamlUnmarshal L olddt = Inr kust \<longrightarrow>
               flows handed_descriptor returned_descriptor kust kcalls) \<and>
            Run L t2 (pathJoin L ''kustomize'' overlay) = Inr rs \<and>
            convert_resources L r 0 rs [] = (Inr objs', evc))"
          using p(6) by simp
        show "evs = evs1 @ events_of 0 segs" using parsed(3) s(2) by simp
        show "\<forall>objs'. Inr objs = Inr objs' \<longrightarrow>
           for_objects (Delete_object L r) 0 objs' w1 = (res, w', events_of 0 segs) \<and>
           length segs \<le> length objs' \<and> (res = None \<longrightarrow> length segs = length objs') \<and>
           (res \<noteq> None \<longrightarrow> segs \<noteq> []) \<and>
           list_all2 (\<lambda>obj seg. flows handed returned obj seg \<and> seg \<noteq> [])
             (take (length segs) objs') segs"
          using parsed(2) s(2-6) by simp
      qed (use s(7-) in simp_all)
    qed
  qed
qed

lemma fatal_event_of [simp]: "fatal nf (event_of j c) = fatal_call nf c"
  by (cases c) (simp_all add: fatal_def fatal_call_def split: option.splits)

lemma step_event_of [simp]: "step_of (event_of j c) = call_step j c"
  by (cases c) simp_all

lemma steps_events_of: "steps (events_of j segs) = object_steps j segs"
  by (induction segs arbitrary: j) (simp_all add: steps_def comp_def)

lemma steps_map_event_of: "steps (map (event_of j) cs) = concat (map (call_step j) cs)"
  by (simp add: steps_def comp_def)

lemma is_event_of [simp]:
  "is_patch (event_of j c) = is_patched c"
  "is_create (event_of j c) = is_created c"
  "is_delete (event_of j c) = is_deleted c"
  "is_post_apply (event_of j c) = is_post_apply_ran c"
  "is_cluster_call (event_of j c) = to_cluster c"
  by (cases c; simp add: is_cluster_call_def to_cluster_def)+

lemma events_of_rel:
  "list_all2 (\<lambda>ev c. \<exists>j. ev = event_of j c) (events_of k segs) (concat segs)"
proof (induction segs arbitrary: k)
  case Nil
  then show ?case by simp
next
  case (Cons seg segs)
  have "list_all2 (\<lambda>ev c. \<exists>j. ev = event_of j c) (map (event_of k) seg) seg"
    by (auto simp: list_all2_conv_all_nth)
  with Cons[of "Suc k"] show ?case by (simp add: list_all2_appendI)
qed

lemma map_event_of_rel:
  "list_all2 (\<lambda>ev c. \<exists>j. ev = event_of j c) (map (event_of k) cs) cs"
  by (auto simp: list_all2_conv_all_nth)

lemma set_butlast_filter: "set (butlast (filter P xs)) \<subseteq> set (butlast xs)"
proof (induction xs rule: rev_induct)
  case Nil
  then show ?case by simp
next
  case (snoc x xs)
  show ?case
  proof (cases "P x")
    case True
    then show ?thesis by (auto simp: butlast_append)
  next
    case False
    with snoc show ?thesis by (auto dest: in_set_butlastD)
  qed
qed

lemma list_all2_butlast:
  "list_all2 R xs ys \<Longrightarrow> list_all2 R (butlast xs) (butlast ys)"
  by (induction rule: list_all2_induct) (auto simp: list_all2_Nil list_all2_Nil2)

lemma list_all_transfer:
  assumes "list_all2 R xs ys" "list_all (\<lambda>x. \<not> F x) xs" "\<And>x y. R x y \<Longrightarrow> G y \<Longrightarrow> F x"
  shows "list_all (\<lambda>y. \<not> G y) ys"
  using assms(1,2)
  by (induction rule: list_all2_induct) (auto dest: assms(3))

lemma stopped_of_fail_fast:
  fixes evs :: "'fs event list" and calls :: "('fs, 'k, 'o) call list"
  assumes ff: "fail_fast nf failed evs"
    and ag: "list_all2 (\<lambda>ev c. \<exists>j. ev = event_of j c) (filter collab evs) calls"
  shows "stopped nf failed calls"
proof -
  have b: "list_all (\<lambda>ev. \<not> fatal nf ev) (butlast evs)"
    using ff by (auto simp: fail_fast_def list_all_iff dest: in_set_butlastD split: if_splits)
  then have "list_all (\<lambda>ev. \<not> fatal nf ev) (butlast (filter collab evs))"
    using set_butlast_filter[of collab evs] by (auto simp: list_all_iff)
  then have 1: "list_all (\<lambda>c. \<not> fatal_call nf c) (butlast calls)"
    by (rule list_all_transfer[OF list_all2_butlast[OF ag]]) auto
  have 2: "list_all (\<lambda>c. \<not> fatal_call nf c) calls" if "\<not> failed"
  proof -
    from ff that have "list_all (\<lambda>ev. \<not> fatal nf ev) (filter collab evs)"
      by (simp add: fail_fast_def list_all_iff)
    then show ?thesis by (rule list_all_transfer[OF ag]) auto
  qed
  from 1 2 show ?thesis by (simp add: stopped_def)
qed

lemma stopped_fatal_last:
  assumes "stopped nf failed calls" "c \<in> set calls" "fatal_call nf c"
  shows "failed \<and> c = last calls"
proof -
  from assms have f: failed
    by (auto simp: stopped_def list_all_iff split: if_splits)
  from assms(2) have ne: "calls \<noteq> []" by auto
  then have "calls = butlast calls @ [last calls]" by simp
  then have "set calls = set (butlast calls) \<union> {last calls}"
    by (metis Un_insert_right list.simps(15) set_append sup_bot.right_neutral append_Nil2
        list.set(1))
  with assms f show ?thesis by (auto simp: stopped_def list_all_iff)
qed

lemma filter_hooked_steps: "filter hooked (steps evs) = steps (filter collab evs)"
proof (induction evs)
  case Nil
  then show ?case by (simp add: steps_def)
next
  case (Cons ev evs)
  then show ?case by (cases ev) (simp_all add: steps_def)
qed

lemma follows_filter:
  "follows c xs ys \<Longrightarrow> follows c (filter P xs) (filter P ys)"
  by (auto simp: follows_def intro: filter_mono_prefix)

lemma in_events_of:
  "c \<in> set (concat segs) \<Longrightarrow> \<exists>j. event_of j c \<in> set (events_of k segs)"
proof (induction segs arbitrary: k)
  case Nil
  then show ?case by simp
next
  case (Cons seg segs)
  show ?case
  proof (cases "c \<in> set seg")
    case True
    then show ?thesis by (intro exI[of _ k]) simp
  next
    case False
    with Cons.prems have "c \<in> set (concat segs)" by simp
    from Cons.IH[OF this, of "Suc k"] show ?thesis by auto
  qed
qed

lemma last_events_of:
  "segs \<noteq> [] \<Longrightarrow> \<forall>seg\<in>set segs. seg \<noteq> [] \<Longrightarrow>
   concat segs \<noteq> [] \<and> (\<exists>j. last (events_of k segs) = event_of j (last (concat segs)))"
proof (induction segs arbitrary: k)
  case Nil
  then show ?case by simp
next
  case (Cons seg segs)
  show ?case
  proof (cases "segs = []")
    case True
    with Cons.prems show ?thesis by (auto simp: last_map)
  next
    case False
    with Cons.prems Cons.IH[of "Suc k"] obtain j where
      "concat segs \<noteq> []" "last (events_of (Suc k) segs) = event_of j (last (concat segs))"
      by auto
    moreover from this have "events_of (Suc k) segs \<noteq> []"
      using events_of_rel[of "Suc k" segs] by (auto simp: list_all2_Nil)
    ultimately show ?thesis by auto
  qed
qed

lemma submissions_created:
  assumes "submissions nf po calls" "Created x copts out x' \<in> set calls"
  shows "copts = [] \<and> (\<exists>x0 e. Patched x0 ApplyPatch po (Some e) x \<in> set calls \<and> nf e)"
  using assms
proof (induction nf po calls rule: submissions.induct)
  case (3 nf po obj pt opts e obj' cs)
  show ?case
  proof (cases "nf e")
    case False
    with 3 show ?thesis by auto
  next
    case True
    with "3.prems"(1) obtain cobj copts' cout cobj' cs' where
      cs: "cs = Created cobj copts' cout cobj' # cs'" "cobj = obj'" "copts' = []"
        "pt = ApplyPatch" "opts = po"
      by (auto split: list.splits call.splits option.splits)
    show ?thesis
    proof (cases "Created x copts out x' = Created cobj copts' cout cobj'")
      case True
      with cs \<open>nf e\<close> show ?thesis by auto
    next
      case False
      with "3.prems"(2) cs have mem: "Created x copts out x' \<in> set cs'" by auto
      show ?thesis
      proof (cases cout)
        case None
        with "3.prems"(1) cs True have "submissions nf po cs'" by simp
        from "3.IH"(1)[OF True cs(1) refl None this mem] cs show ?thesis by auto
      next
        case (Some a)
        with "3.prems"(1) cs True have "cs' = []" by simp
        with mem show ?thesis by simp
      qed
    qed
  qed
qed auto

lemma submissions_patched:
  assumes "submissions nf po calls" "Patched x pt opts out x' \<in> set calls"
  shows "pt = ApplyPatch \<and> opts = po"
  using assms
proof (induction nf po calls rule: submissions.induct)
  case (3 nf po obj pt' opts' e obj' cs)
  show ?case
  proof (cases "nf e")
    case False
    with 3 show ?thesis by auto
  next
    case True
    with "3.prems"(1) obtain cobj copts' cout cobj' cs' where
      cs: "cs = Created cobj copts' cout cobj' # cs'" "pt' = ApplyPatch" "opts' = po"
      by (auto split: list.splits call.splits option.splits)
    show ?thesis
    proof (cases "Patched x pt opts out x' = Patched obj pt' opts' (Some e) obj'")
      case True
      with cs show ?thesis by auto
    next
      case False
      with "3.prems"(2) cs have mem: "Patched x pt opts out x' \<in> set cs'" by auto
      show ?thesis
      proof (cases cout)
        case None
        with "3.prems"(1) cs True have "submissions nf po cs'" by simp
        from "3.IH"(1)[OF True cs(1) refl None this mem] show ?thesis by auto
      next
        case (Some a)
        with "3.prems"(1) cs True have "cs' = []" by simp
        with mem show ?thesis by simp
      qed
    qed
  qed
qed auto

lemma collab_events_of [simp]: "filter collab (events_of j segs) = events_of j segs"
  by (induction segs arbitrary: j) simp_all

lemma agreement:
  fixes evs :: "'fs event list" and pcalls :: "('fs, 'k, 'o) call list"
  assumes "filter collab evs1 = map (event_of 0) pcalls" "evs = evs1 @ events_of 0 segs"
  shows "list_all2 (\<lambda>ev c. \<exists>j. ev = event_of j c) (filter collab evs) (pcalls @ concat segs)"
  using assms map_event_of_rel[of 0 pcalls] events_of_rel[of 0 segs]
  by (simp add: list_all2_appendI)

lemma list_all2_and_right:
  "list_all2 P xs ys \<Longrightarrow> list_all Q ys \<Longrightarrow> list_all2 (\<lambda>x y. P x y \<and> Q y) xs ys"
  by (simp add: list_all2_conv_all_nth list_all_length)

lemma parse_calls_not_to_cluster:
  assumes "\<forall>c\<in>set fcalls. is_fsmutator_ran c" "\<forall>c\<in>set kcalls. is_kmutator_ran c"
  shows "\<forall>c\<in>set (fcalls @ kcalls). \<not> to_cluster c"
  using assms by (auto dest: hook_not_to_cluster)

lemma to_cluster_in_segments:
  "c \<in> set (pcalls @ rest) \<Longrightarrow> to_cluster c \<Longrightarrow> \<forall>c\<in>set pcalls. \<not> to_cluster c \<Longrightarrow>
   c \<in> set rest"
  by auto

lemma submit_not_found:
  assumes "Patch (cli r) x ApplyPatch
      (FieldOwner (fieldOwner r) # (if forceOwner r then [ForceOwnership] else [])) w0 =
      (Some e, x1, w1)" "IsNotFound L e"
  shows "case Create (cli r) x1 [] w1 of
      (out, x2, w2) \<Rightarrow>
        submit L r j x w0 =
          (map_option (Wrap ''error creating object'') out, x2, w2,
           [PatchCall j ApplyPatch
              (FieldOwner (fieldOwner r) # (if forceOwner r then [ForceOwnership] else []))
              (Some e),
            CreateCall j [] out])"
  using assms
  by (auto simp: submit_def patch_options_eq Let_def split: prod.splits option.splits)

section \<open>Running the example\<close>

lemmas ex_defs =
  ex_libs_def ex_client_def ex_emb_def fail_on_def stamp_def add_file_def add_resource_def
  clean_def NewRenderer_def WithFieldOwner_def WithForceOwnership_def WithKustomizeMutator_def
  WithObjectMutator_def WithUnstructured_def WithPostApplyAction_def WithFSMutator_def
  LoadFS_def parse_def mutateKustomization_def typedObject_def unstructuredObject_def
  Apply_def Apply_object_def submit_def patch_options_def Delete_def Delete_object_def
  BaseKustomizationPath_def

lemma ex_apply_mixed:
  "Apply ex_libs (NewRenderer (ex_client []) (ex_emb ''abc'') [WithForceOwnership]) ''base''
     [''a''] =
   (None, [''c'', ''b'', ''a''],
    [LoadFSCall (Inr [(''kustomize/base/kustomization.yaml'', ''abc'')]),
     KustomizeCall [(''kustomize/base/kustomization.yaml'', ''abc'')] ''kustomize/base'' None,
     ConvertCall 0 None, ConvertCall 1 None, ConvertCall 2 None,
     PatchCall 0 ApplyPatch [FieldOwner ''plumber'', ForceOwnership] None,
     PatchCall 1 ApplyPatch [FieldOwner ''plumber'', ForceOwnership] (Some (Err ''not found'')),
     CreateCall 1 [] None,
     PatchCall 2 ApplyPatch [FieldOwner ''plumber'', ForceOwnership] (Some (Err ''not found'')),
     CreateCall 2 [] None])"
  by (simp add: ex_defs)

lemma ex_apply_denied:
  "Apply ex_libs (NewRenderer (ex_client [''b'']) (ex_emb ''abc'') []) ''base'' [''a''] =
   (Some (Wrap ''error patching object'' (Err ''forbidden'')), [''a''],
    [LoadFSCall (Inr [(''kustomize/base/kustomization.yaml'', ''abc'')]),
     KustomizeCall [(''kustomize/base/kustomization.yaml'', ''abc'')] ''kustomize/base'' None,
     ConvertCall 0 None, ConvertCall 1 None, ConvertCall 2 None,
     PatchCall 0 ApplyPatch [FieldOwner ''plumber''] None,
     PatchCall 1 ApplyPatch [FieldOwner ''plumber''] (Some (Err ''forbidden''))])"
  by (simp add: ex_defs)

lemma ex_parse_missing_overlay:
  "parse ex_libs (NewRenderer (ex_client []) (ex_emb ''abc'') [WithFSMutator stamp])
     ''missing'' [''a''] =
   (Inl (Wrap ''error running kustomize'' (Err ''no kustomization file'')), [''a''],
    [LoadFSCall (Inr [(''kustomize/base/kustomization.yaml'', ''abc'')]),
     FSMutatorCall 0 [(''kustomize/base/kustomization.yaml'', ''abc'')] None,
     KustomizeCall [(''kustomize/base/kustomization.yaml'', ''abc'')] ''kustomize/missing''
       (Some (Err ''no kustomization file''))])"
  by (simp add: ex_defs)



















lemmas ex_recorded_defs = ex_defs recorded_def recording_client_def recording_def Let_def

lemma ex_apply_mixed_recorded:
  "Apply ex_libs (recorded (NewRenderer (ex_client []) (ex_emb ''abc'') [WithForceOwnership]))
     ''base'' ([''a''], []) =
   (None,
    ([''c'', ''b'', ''a''],
     [Patched ''a'' ApplyPatch [FieldOwner ''plumber'', ForceOwnership] None ''a'',
      Patched ''b'' ApplyPatch [FieldOwner ''plumber'', ForceOwnership]
        (Some (Err ''not found'')) ''b'',
      Created ''b'' [] None ''b'',
      Patched ''c'' ApplyPatch [FieldOwner ''plumber'', ForceOwnership]
        (Some (Err ''not found'')) ''c'',
      Created ''c'' [] None ''c'']),
    [LoadFSCall (Inr [(''kustomize/base/kustomization.yaml'', ''abc'')]),
     KustomizeCall [(''kustomize/base/kustomization.yaml'', ''abc'')] ''kustomize/base'' None,
     ConvertCall 0 None, ConvertCall 1 None, ConvertCall 2 None,
     PatchCall 0 ApplyPatch [FieldOwner ''plumber'', ForceOwnership] None,
     PatchCall 1 ApplyPatch [FieldOwner ''plumber'', ForceOwnership] (Some (Err ''not found'')),
     CreateCall 1 [] None,
     PatchCall 2 ApplyPatch [FieldOwner ''plumber'', ForceOwnership] (Some (Err ''not found'')),
     CreateCall 2 [] None])"
  by (simp add: ex_recorded_defs)

lemma ex_apply_denied_recorded:
  "Apply ex_libs (recorded (NewRenderer (ex_client [''b'']) (ex_emb ''abc'') []))
     ''base'' ([''a''], []) =
   (Some (Wrap ''error patching object'' (Err ''forbidden'')),
    ([''a''],
     [Patched ''a'' ApplyPatch [FieldOwner ''plumber''] None ''a'',
      Patched ''b'' ApplyPatch [FieldOwner ''plumber''] (Some (Err ''forbidden'')) ''b'']),
    [LoadFSCall (Inr [(''kustomize/base/kustomization.yaml'', ''abc'')]),
     KustomizeCall [(''kustomize/base/kustomization.yaml'', ''abc'')] ''kustomize/base'' None,
     ConvertCall 0 None, ConvertCall 1 None, ConvertCall 2 None,
     PatchCall 0 ApplyPatch [FieldOwner ''plumber''] None,
     PatchCall 1 ApplyPatch [FieldOwner ''plumber''] (Some (Err ''forbidden''))])"
  by (simp add: ex_recorded_defs)

section \<open>The claims\<close>

subsection \<open>C1: patch, then create on not-found\<close>

text \<open>
  C1.  Run \<open>Apply\<close> with every hook and the client recording.  It returns what it returns
  without the recording, and the calls the collaborators received are those of \<open>parse\<close>,
  none of them to the cluster, and then one list of calls for each composed object the
  loop reached, in the order of composition: the object flows through the calls of its
  list, which holds at most one patch, and exactly one when \<open>Apply\<close> returns nil.  The
  calls obey the submission policy \<open>submissions\<close>: every patch is a server-side apply
  with the field owner of the renderer, and \<open>ForceOwnership\<close> exactly when it is
  configured; a patch answered with not-found is followed at once by a create of the
  object that patch left, with no option; no create is made anywhere else, so none for an
  object whose patch succeeded.  A patch that failed with anything but not-found is the
  last call any collaborator received, and \<open>Apply\<close> returns its error wrapped.
\<close>

theorem Apply_patch_then_create:
  fixes evs :: "'fs event list" and r :: "('fs, 'k, 'ro, 'o, 'w) Renderer"
  assumes "Apply L r overlay w = (res, w', evs)"
  shows "\<exists>(calls :: ('fs, 'k, 'o) call list) pcalls segs.
    Apply L (recorded r) overlay (w, []) = (res, (w', calls), evs) \<and>
    calls = pcalls @ concat segs \<and> list_all (\<lambda>c. \<not> to_cluster c) pcalls \<and>
    (\<forall>objs w1 evs1. parse L r overlay w = (Inr objs, w1, evs1) \<longrightarrow>
       length segs \<le> length objs \<and> (res = None \<longrightarrow> length segs = length objs) \<and>
       list_all2 (\<lambda>obj seg. flows handed returned obj seg \<and>
            length (filter is_patched seg) \<le> 1)
         (take (length segs) objs) segs \<and>
       (res = None \<longrightarrow> list_all (\<lambda>seg. length (filter is_patched seg) = 1) segs)) \<and>
    submissions (IsNotFound L)
      (FieldOwner (fieldOwner r) # (if forceOwner r then [ForceOwnership] else [])) calls \<and>
    (\<forall>x pt opts e x'. Patched x pt opts (Some e) x' \<in> set calls \<and> \<not> IsNotFound L e \<longrightarrow>
       res = Some (Wrap ''error patching object'' e) \<and>
       last calls = Patched x pt opts (Some e) x')"
  using assms
proof (cases rule: Apply_recorded)
  case (recorded fcalls kcalls segs pres w1 evs1)
  let ?calls = "fcalls @ kcalls @ concat segs"
  have run: "Apply L (recorded r) overlay (w, []) = (res, (w', ?calls), evs)"
    using recorded(1) by simp
  have nc: "\<forall>c\<in>set (fcalls @ kcalls). \<not> to_cluster c"
    by (rule parse_calls_not_to_cluster[OF recorded(5,6)])
  have sub: "submissions (IsNotFound L)
      (FieldOwner (fieldOwner r) # (if forceOwner r then [ForceOwnership] else [])) ?calls"
    using submissions_skip[OF nc, of "IsNotFound L" "patch_options r" "concat segs"]
      recorded(12) by (simp add: patch_options_eq)
  have st: "stopped (IsNotFound L) (res \<noteq> None) ?calls"
    using stopped_of_fail_fast[OF Apply_fail_fast[OF assms] agreement[OF recorded(4,9)]]
    by simp
  have err: "res = Some (Wrap ''error patching object'' e) \<and>
       last ?calls = Patched x pt opts (Some e) x'"
    if m: "Patched x pt opts (Some e) x' \<in> set ?calls" and n: "\<not> IsNotFound L e"
    for x pt opts e x'
  proof -
    have "fatal_call (IsNotFound L) (Patched x pt opts (Some e) x')"
      using n by (simp add: fatal_call_def)
    from stopped_fatal_last[OF st m this]
    have l: "last ?calls = Patched x pt opts (Some e) x'" by simp
    have ms: "Patched x pt opts (Some e) x' \<in> set (concat segs)"
      by (rule to_cluster_in_segments[OF _ _ nc]) (use m in \<open>simp_all add: to_cluster_def\<close>)
    from in_events_of[OF this, of 0] obtain j where
      ev: "PatchCall j pt opts (Some e) \<in> set (events_of 0 segs)" by auto
    from ms have "segs \<noteq> []" by auto
    with recorded(10) obtain objs where "pres = Inr objs" by (cases pres) auto
    with recorded(11) have "for_objects (Apply_object L r) 0 objs w1 =
        (res, w', events_of 0 segs)" by simp
    from Apply_loop_patch_error[OF this] ev n l show ?thesis by blast
  qed
  have objs: "length segs \<le> length objs \<and> (res = None \<longrightarrow> length segs = length objs) \<and>
       list_all2 (\<lambda>obj seg. flows handed returned obj seg \<and>
            length (filter is_patched seg) \<le> 1)
         (take (length segs) objs) segs \<and>
       (res = None \<longrightarrow> list_all (\<lambda>seg. length (filter is_patched seg) = 1) segs)"
    if p: "parse L r overlay w = (Inr objs, w1', evs1')" for objs w1' evs1'
  proof -
    from p recorded(2) have "pres = Inr objs" by simp
    with recorded(11) have a: "length segs \<le> length objs"
      "res = None \<longrightarrow> length segs = length objs"
      "list_all2 (\<lambda>obj seg. flows handed returned obj seg \<and> seg \<noteq> [])
         (take (length segs) objs) segs" by simp_all
    from a(3) have "list_all2 (\<lambda>obj seg. flows handed returned obj seg)
         (take (length segs) objs) segs"
      by (rule list_all2_mono) simp
    from list_all2_and_right[OF this recorded(13)] a(1,2) recorded(14) show ?thesis
      by simp
  qed
  from nc have ncl: "list_all (\<lambda>c. \<not> to_cluster c) (fcalls @ kcalls)"
    by (simp add: list_all_iff)
  show ?thesis
  proof (rule exI[of _ ?calls], rule exI[of _ "fcalls @ kcalls"], rule exI[of _ segs],
      intro conjI)
    show "Apply L (recorded r) overlay (w, []) = (res, (w', ?calls), evs)" by (rule run)
    show "?calls = (fcalls @ kcalls) @ concat segs" by simp
    show "list_all (\<lambda>c. \<not> to_cluster c) (fcalls @ kcalls)" by (rule ncl)
    show "\<forall>objs w1 evs1. parse L r overlay w = (Inr objs, w1, evs1) \<longrightarrow>
       length segs \<le> length objs \<and> (res = None \<longrightarrow> length segs = length objs) \<and>
       list_all2 (\<lambda>obj seg. flows handed returned obj seg \<and>
            length (filter is_patched seg) \<le> 1)
         (take (length segs) objs) segs \<and>
       (res = None \<longrightarrow> list_all (\<lambda>seg. length (filter is_patched seg) = 1) segs)"
      using objs by blast
    show "submissions (IsNotFound L)
      (FieldOwner (fieldOwner r) # (if forceOwner r then [ForceOwnership] else [])) ?calls"
      by (rule sub)
    show "\<forall>x pt opts e x'. Patched x pt opts (Some e) x' \<in> set ?calls \<and> \<not> IsNotFound L e \<longrightarrow>
       res = Some (Wrap ''error patching object'' e) \<and>
       last ?calls = Patched x pt opts (Some e) x'"
      using err by blast
  qed
qed

text \<open>
  At the example: with \<open>a\<close> on the cluster, the client receives a patch for \<open>a\<close>, and
  for \<open>b\<close> and \<open>c\<close> a patch, answered with not-found, and a create; and when the
  cluster refuses the patch of \<open>b\<close>, that patch is the last call and its error is
  returned.
\<close>

theorem Apply_patch_then_create_witness:
  "(case Apply ex_libs
          (recorded (NewRenderer (ex_client []) (ex_emb ''abc'') [WithForceOwnership]))
          ''base'' ([''a''], []) of
      (res, (w', calls), evs) \<Rightarrow>
        res = None \<and> w' = [''c'', ''b'', ''a''] \<and>
        calls =
          [Patched ''a'' ApplyPatch [FieldOwner ''plumber'', ForceOwnership] None ''a'',
           Patched ''b'' ApplyPatch [FieldOwner ''plumber'', ForceOwnership]
             (Some (Err ''not found'')) ''b'',
           Created ''b'' [] None ''b'',
           Patched ''c'' ApplyPatch [FieldOwner ''plumber'', ForceOwnership]
             (Some (Err ''not found'')) ''c'',
           Created ''c'' [] None ''c''] \<and>
        submissions (IsNotFound ex_libs) [FieldOwner ''plumber'', ForceOwnership] calls) \<and>
   (case Apply ex_libs (recorded (NewRenderer (ex_client [''b'']) (ex_emb ''abc'') []))
          ''base'' ([''a''], []) of
      (res, (w', calls), evs) \<Rightarrow>
        calls =
          [Patched ''a'' ApplyPatch [FieldOwner ''plumber''] None ''a'',
           Patched ''b'' ApplyPatch [FieldOwner ''plumber''] (Some (Err ''forbidden'')) ''b''] \<and>
        \<not> IsNotFound ex_libs (Err ''forbidden'') \<and>
        res = Some (Wrap ''error patching object'' (Err ''forbidden'')) \<and>
        last calls =
          Patched ''b'' ApplyPatch [FieldOwner ''plumber''] (Some (Err ''forbidden'')) ''b'')"
proof -
  have nf: "\<not> IsNotFound ex_libs (Err ''forbidden'')" by (simp add: ex_libs_def)
  have fo: "fieldOwner (NewRenderer (ex_client []) (ex_emb ''abc'') [WithForceOwnership]
      :: (tree, string, string, string, string list) Renderer) = ''plumber''"
    "forceOwner (NewRenderer (ex_client []) (ex_emb ''abc'') [WithForceOwnership]
      :: (tree, string, string, string, string list) Renderer)"
    by (simp_all add: NewRenderer_def WithForceOwnership_def)
  from Apply_patch_then_create[OF ex_apply_mixed] obtain calls where
    a: "Apply ex_libs
          (recorded (NewRenderer (ex_client []) (ex_emb ''abc'') [WithForceOwnership]))
          ''base'' ([''a''], []) = (None, ([''c'', ''b'', ''a''], calls),
        [LoadFSCall (Inr [(''kustomize/base/kustomization.yaml'', ''abc'')]),
     KustomizeCall [(''kustomize/base/kustomization.yaml'', ''abc'')] ''kustomize/base'' None,
     ConvertCall 0 None, ConvertCall 1 None, ConvertCall 2 None,
     PatchCall 0 ApplyPatch [FieldOwner ''plumber'', ForceOwnership] None,
     PatchCall 1 ApplyPatch [FieldOwner ''plumber'', ForceOwnership] (Some (Err ''not found'')),
     CreateCall 1 [] None,
     PatchCall 2 ApplyPatch [FieldOwner ''plumber'', ForceOwnership] (Some (Err ''not found'')),
     CreateCall 2 [] None])"
      "submissions (IsNotFound ex_libs) [FieldOwner ''plumber'', ForceOwnership] calls"
    by (elim exE conjE) (simp add: fo)
  from Apply_patch_then_create[OF ex_apply_denied] obtain calls' where
    b: "Apply ex_libs (recorded (NewRenderer (ex_client [''b'']) (ex_emb ''abc'') []))
          ''base'' ([''a''], []) =
        (Some (Wrap ''error patching object'' (Err ''forbidden'')), ([''a''], calls'),
         [LoadFSCall (Inr [(''kustomize/base/kustomization.yaml'', ''abc'')]),
     KustomizeCall [(''kustomize/base/kustomization.yaml'', ''abc'')] ''kustomize/base'' None,
     ConvertCall 0 None, ConvertCall 1 None, ConvertCall 2 None,
     PatchCall 0 ApplyPatch [FieldOwner ''plumber''] None,
     PatchCall 1 ApplyPatch [FieldOwner ''plumber''] (Some (Err ''forbidden''))])"
      "\<forall>x pt opts e x'. Patched x pt opts (Some e) x' \<in> set calls' \<and>
         \<not> IsNotFound ex_libs e \<longrightarrow>
         Some (Wrap ''error patching object'' (Err ''forbidden'')) =
           Some (Wrap ''error patching object'' e) \<and>
         last calls' = Patched x pt opts (Some e) x'"
    by (elim exE conjE) simp
  from a(1) have ca: "calls =
          [Patched ''a'' ApplyPatch [FieldOwner ''plumber'', ForceOwnership] None ''a'',
           Patched ''b'' ApplyPatch [FieldOwner ''plumber'', ForceOwnership]
             (Some (Err ''not found'')) ''b'',
           Created ''b'' [] None ''b'',
           Patched ''c'' ApplyPatch [FieldOwner ''plumber'', ForceOwnership]
             (Some (Err ''not found'')) ''c'',
           Created ''c'' [] None ''c'']"
    unfolding ex_apply_mixed_recorded by simp
  from b(1) have cb: "calls' =
          [Patched ''a'' ApplyPatch [FieldOwner ''plumber''] None ''a'',
           Patched ''b'' ApplyPatch [FieldOwner ''plumber''] (Some (Err ''forbidden'')) ''b'']"
    unfolding ex_apply_denied_recorded by simp
  have m: "Patched ''b'' ApplyPatch [FieldOwner ''plumber''] (Some (Err ''forbidden'')) ''b''
      \<in> set calls'" unfolding cb by simp
  from b(2)[rule_format, OF conjI, OF m nf] a(2) nf
  show ?thesis
    unfolding ex_apply_mixed_recorded ex_apply_denied_recorded prod.case ca cb by simp
qed

subsection \<open>C2: fail-fast\<close>




subsection \<open>C3: an unresolvable type fails the render\<close>



subsection \<open>C4: deleting what is absent\<close>



subsection \<open>C5: order of the steps\<close>



subsection \<open>C6: the base descriptor\<close>




subsection \<open>C7: the delete path\<close>



subsection \<open>C8: the manifest source\<close>



subsection \<open>C9: no cluster call after a rendering error\<close>

text \<open>
  C9.  When \<open>parse\<close> returns an error (the source load, a filesystem hook, the
  descriptor mutation, the composition or a conversion failed), \<open>Apply\<close> and \<open>Delete\<close>
  return that error wrapped, with the world and the log \<open>parse\<close> left: the log holds no
  patch, create or delete, and whatever the filesystem and descriptor hooks leave
  alone in the world (the cluster, when they do not touch it) is as it was before
  the call.
\<close>

theorem parse_error_makes_no_cluster_call:
  fixes evs :: "'fs event list"
  assumes "parse L r overlay w = (Inl e, w1, evs)"
  shows "Apply L r overlay w = (Some (Wrap ''error parsing kustomize files'' e), w1, evs) \<and>
    Delete L r overlay w = (Some (Wrap ''error parsing kustomize files'' e), w1, evs) \<and>
    (\<forall>ev\<in>set evs. \<not> is_cluster_call ev) \<and>
    (\<forall>f. preserves f (fsmutators r) \<and> preserves f (kmutators r) \<longrightarrow> f w1 = f w)"
proof -
  have "\<forall>ev\<in>set evs. \<not> is_cluster_call ev"
    using parse_no_object_call[OF assms] not_object_call by blast
  then show ?thesis using assms
    by (auto simp: Apply_def Delete_def intro: parse_preserves[OF assms])
qed

text \<open>
  At the example: an overlay that does not exist fails in the composition, and the
  world, which the only hook leaves alone, is as before.
\<close>

theorem parse_error_makes_no_cluster_call_witness:
  "Apply ex_libs (NewRenderer (ex_client []) (ex_emb ''abc'') [WithFSMutator stamp])
     ''missing'' [''a''] =
   (Some (Wrap ''error parsing kustomize files''
      (Wrap ''error running kustomize'' (Err ''no kustomization file''))), [''a''],
    [LoadFSCall (Inr [(''kustomize/base/kustomization.yaml'', ''abc'')]),
     FSMutatorCall 0 [(''kustomize/base/kustomization.yaml'', ''abc'')] None,
     KustomizeCall [(''kustomize/base/kustomization.yaml'', ''abc'')] ''kustomize/missing''
       (Some (Err ''no kustomization file''))]) \<and>
   Delete ex_libs (NewRenderer (ex_client []) (ex_emb ''abc'') [WithFSMutator stamp])
     ''missing'' [''a''] =
   (Some (Wrap ''error parsing kustomize files''
      (Wrap ''error running kustomize'' (Err ''no kustomization file''))), [''a''],
    [LoadFSCall (Inr [(''kustomize/base/kustomization.yaml'', ''abc'')]),
     FSMutatorCall 0 [(''kustomize/base/kustomization.yaml'', ''abc'')] None,
     KustomizeCall [(''kustomize/base/kustomization.yaml'', ''abc'')] ''kustomize/missing''
       (Some (Err ''no kustomization file''))]) \<and>
   \<not> is_cluster_call
     (KustomizeCall [(''kustomize/base/kustomization.yaml'', ''abc'')] ''kustomize/missing''
       (Some (Err ''no kustomization file''))) \<and>
   preserves (\<lambda>w. w)
     (fsmutators (NewRenderer (ex_client []) (ex_emb ''abc'') [WithFSMutator stamp]
        :: (tree, string, string, string, string list) Renderer)) \<and>
   preserves (\<lambda>w. w)
     (kmutators (NewRenderer (ex_client []) (ex_emb ''abc'') [WithFSMutator stamp]
        :: (tree, string, string, string, string list) Renderer))"
proof -
  note t = parse_error_makes_no_cluster_call[OF ex_parse_missing_overlay]
  have p: "preserves (\<lambda>w. w)
     (fsmutators (NewRenderer (ex_client []) (ex_emb ''abc'') [WithFSMutator stamp]
        :: (tree, string, string, string, string list) Renderer))"
    "preserves (\<lambda>w. w)
     (kmutators (NewRenderer (ex_client []) (ex_emb ''abc'') [WithFSMutator stamp]
        :: (tree, string, string, string, string list) Renderer))"
    by (simp_all add: preserves_def NewRenderer_def WithFSMutator_def stamp_def)
  from t[THEN conjunct1] t[THEN conjunct2, THEN conjunct1]
    t[THEN conjunct2, THEN conjunct2, THEN conjunct1]
    t[THEN conjunct2, THEN conjunct2, THEN conjunct2, rule_format, of "\<lambda>w. w", OF conjI, OF p] p
  show ?thesis by simp
qed

subsection \<open>C10: the create carries no option\<close>

text \<open>
  C10.  Run \<open>Apply\<close> with every hook and the client recording.  Every create the client
  received was handed no option at all (no field owner, no forced ownership), and the
  object it was handed is the one left by a patch that the client had received with the
  field owner of the renderer, and \<open>ForceOwnership\<close> when that is configured, and had
  answered with not-found.  For the submission of one object: when \<open>Patch\<close> of the client,
  called with these options, answers not-found, the submission returns what \<open>Create\<close> of
  the client returns on the object and the world that patch left, called with the empty
  list of options.  A renderer built with options of which none sets the field owner has
  the field owner \<open>plumber\<close>.
\<close>

theorem create_carries_no_options:
  fixes evs :: "'fs event list" and r :: "('fs, 'k, 'ro, 'o, 'w) Renderer"
    and opts :: "('fs, 'k, 'ro, 'o, 'w) Option list"
  assumes "Apply L r overlay w = (res, w', evs)"
  shows "(\<exists>calls :: ('fs, 'k, 'o) call list.
      Apply L (recorded r) overlay (w, []) = (res, (w', calls), evs) \<and>
      (\<forall>x copts out x'. Created x copts out x' \<in> set calls \<longrightarrow>
         copts = [] \<and>
         (\<exists>x0 e. Patched x0 ApplyPatch
               (FieldOwner (fieldOwner r) # (if forceOwner r then [ForceOwnership] else []))
               (Some e) x \<in> set calls \<and> IsNotFound L e))) \<and>
    (\<forall>j x w0 e x1 w1.
       Patch (cli r) x ApplyPatch
         (FieldOwner (fieldOwner r) # (if forceOwner r then [ForceOwnership] else [])) w0 =
         (Some e, x1, w1) \<and> IsNotFound L e \<longrightarrow>
       (case Create (cli r) x1 [] w1 of
          (out, x2, w2) \<Rightarrow>
            \<exists>evs' :: 'fs event list.
              submit L r j x w0 =
                (map_option (Wrap ''error creating object'') out, x2, w2, evs'))) \<and>
    ((\<forall>opt\<in>set opts. \<forall>r'. fieldOwner (opt r') = fieldOwner r') \<longrightarrow>
       fieldOwner (NewRenderer c emb opts) = ''plumber'')"
proof -
  have d: "fieldOwner (NewRenderer c emb opts) = ''plumber''"
    if "\<forall>opt\<in>set opts. \<forall>r'. fieldOwner (opt r') = fieldOwner r'"
    unfolding NewRenderer_def fold_options_fieldOwner[OF that] by simp
  have s: "case Create (cli r) x1 [] w1 of
          (out, x2, w2) \<Rightarrow>
            \<exists>evs' :: 'fs event list.
              submit L r j x w0 =
                (map_option (Wrap ''error creating object'') out, x2, w2, evs')"
    if "Patch (cli r) x ApplyPatch
         (FieldOwner (fieldOwner r) # (if forceOwner r then [ForceOwnership] else [])) w0 =
         (Some e, x1, w1)" "IsNotFound L e" for j x w0 e x1 w1
    using submit_not_found[OF that, of j] by (auto split: prod.splits)
  have c: "\<exists>calls :: ('fs, 'k, 'o) call list.
      Apply L (recorded r) overlay (w, []) = (res, (w', calls), evs) \<and>
      (\<forall>x copts out x'. Created x copts out x' \<in> set calls \<longrightarrow>
         copts = [] \<and>
         (\<exists>x0 e. Patched x0 ApplyPatch
               (FieldOwner (fieldOwner r) # (if forceOwner r then [ForceOwnership] else []))
               (Some e) x \<in> set calls \<and> IsNotFound L e))"
    using assms
  proof (cases rule: Apply_recorded)
    case (recorded fcalls kcalls segs pres w1 evs1)
    let ?calls = "fcalls @ kcalls @ concat segs"
    have run: "Apply L (recorded r) overlay (w, []) = (res, (w', ?calls), evs)"
      using recorded(1) by simp
    have nc: "\<forall>c\<in>set (fcalls @ kcalls). \<not> to_cluster c"
      by (rule parse_calls_not_to_cluster[OF recorded(5,6)])
    have sub: "submissions (IsNotFound L)
        (FieldOwner (fieldOwner r) # (if forceOwner r then [ForceOwnership] else [])) ?calls"
      using submissions_skip[OF nc, of "IsNotFound L" "patch_options r" "concat segs"]
        recorded(12) by (simp add: patch_options_eq)
    show ?thesis
      by (rule exI[of _ ?calls]) (use run submissions_created[OF sub] in blast)
  qed
  show ?thesis
  proof (intro conjI)
    show "\<forall>j x w0 e x1 w1.
       Patch (cli r) x ApplyPatch
         (FieldOwner (fieldOwner r) # (if forceOwner r then [ForceOwnership] else [])) w0 =
         (Some e, x1, w1) \<and> IsNotFound L e \<longrightarrow>
       (case Create (cli r) x1 [] w1 of
          (out, x2, w2) \<Rightarrow>
            \<exists>evs' :: 'fs event list.
              submit L r j x w0 =
                (map_option (Wrap ''error creating object'') out, x2, w2, evs'))"
      by (intro allI impI, elim conjE, rule s)
  qed (use c d in blast)+
qed

text \<open>
  At the example, with forced ownership configured and no field owner set: the create of
  \<open>b\<close> was handed no option, and the world the submission of \<open>b\<close> leaves is the one
  \<open>Create\<close> returned.
\<close>

theorem create_carries_no_options_witness:
  "(case Apply ex_libs
          (recorded (NewRenderer (ex_client []) (ex_emb ''abc'') [WithForceOwnership]))
          ''base'' ([''a''], []) of
      (res, (w', calls), evs) \<Rightarrow>
        Created ''b'' [] None ''b'' \<in> set calls \<and>
        Patched ''b'' ApplyPatch [FieldOwner ''plumber'', ForceOwnership]
          (Some (Err ''not found'')) ''b'' \<in> set calls) \<and>
   Patch (ex_client [] :: (string, string, string list) client) ''b'' ApplyPatch
     [FieldOwner ''plumber'', ForceOwnership] [''a''] =
     (Some (Err ''not found''), ''b'', [''a'']) \<and>
   Create (ex_client [] :: (string, string, string list) client) ''b'' [] [''a''] =
     (None, ''b'', [''b'', ''a'']) \<and>
   fst (snd (snd (submit ex_libs
     (NewRenderer (ex_client []) (ex_emb ''abc'') [WithForceOwnership]) 1 ''b'' [''a'']))) =
     [''b'', ''a''] \<and>
   fieldOwner (NewRenderer (ex_client []) (ex_emb ''abc'') [WithForceOwnership]
     :: (tree, string, string, string, string list) Renderer) = ''plumber''"
proof -
  note t = create_carries_no_options[OF ex_apply_mixed,
      where opts="[WithForceOwnership]" and c="ex_client []" and emb="ex_emb ''abc''"]
  have k: "\<forall>opt\<in>set [WithForceOwnership :: (tree, string, string, string, string list) Option].
      \<forall>r'. fieldOwner (opt r') = fieldOwner r'"
    by (simp add: WithForceOwnership_def)
  have fo: "fieldOwner (NewRenderer (ex_client []) (ex_emb ''abc'') [WithForceOwnership]
      :: (tree, string, string, string, string list) Renderer) = ''plumber''"
    "forceOwner (NewRenderer (ex_client []) (ex_emb ''abc'') [WithForceOwnership]
      :: (tree, string, string, string, string list) Renderer) = True"
    "cli (NewRenderer (ex_client []) (ex_emb ''abc'') [WithForceOwnership]
      :: (tree, string, string, string, string list) Renderer) = ex_client []"
    by (simp_all add: NewRenderer_def WithForceOwnership_def)
  have p: "Patch (ex_client [] :: (string, string, string list) client) ''b'' ApplyPatch
     [FieldOwner ''plumber'', ForceOwnership] [''a''] =
     (Some (Err ''not found''), ''b'', [''a''])"
    by (simp add: ex_client_def)
  have cr: "Create (ex_client [] :: (string, string, string list) client) ''b'' [] [''a''] =
     (None, ''b'', [''b'', ''a''])"
    by (simp add: ex_client_def)
  have nf: "IsNotFound ex_libs (Err ''not found'')" by (simp add: ex_libs_def)
  from t[THEN conjunct1, unfolded fo if_True] obtain calls where
    a: "Apply ex_libs
          (recorded (NewRenderer (ex_client []) (ex_emb ''abc'') [WithForceOwnership]))
          ''base'' ([''a''], []) = (None, ([''c'', ''b'', ''a''], calls),
        [LoadFSCall (Inr [(''kustomize/base/kustomization.yaml'', ''abc'')]),
     KustomizeCall [(''kustomize/base/kustomization.yaml'', ''abc'')] ''kustomize/base'' None,
     ConvertCall 0 None, ConvertCall 1 None, ConvertCall 2 None,
     PatchCall 0 ApplyPatch [FieldOwner ''plumber'', ForceOwnership] None,
     PatchCall 1 ApplyPatch [FieldOwner ''plumber'', ForceOwnership] (Some (Err ''not found'')),
     CreateCall 1 [] None,
     PatchCall 2 ApplyPatch [FieldOwner ''plumber'', ForceOwnership] (Some (Err ''not found'')),
     CreateCall 2 [] None])"
      "\<forall>x copts out x'. Created x copts out x' \<in> set calls \<longrightarrow>
         copts = [] \<and>
         (\<exists>x0 e. Patched x0 ApplyPatch [FieldOwner ''plumber'', ForceOwnership]
               (Some e) x \<in> set calls \<and> IsNotFound ex_libs e)"
    by (elim exE conjE) (erule (1) that)
  from a(1) have ca: "calls =
          [Patched ''a'' ApplyPatch [FieldOwner ''plumber'', ForceOwnership] None ''a'',
           Patched ''b'' ApplyPatch [FieldOwner ''plumber'', ForceOwnership]
             (Some (Err ''not found'')) ''b'',
           Created ''b'' [] None ''b'',
           Patched ''c'' ApplyPatch [FieldOwner ''plumber'', ForceOwnership]
             (Some (Err ''not found'')) ''c'',
           Created ''c'' [] None ''c'']"
    unfolding ex_apply_mixed_recorded by simp
  have m: "Created ''b'' [] None ''b'' \<in> set calls" unfolding ca by simp
  note s = t[THEN conjunct2, THEN conjunct1, rule_format, of "''b''" "[''a'']"
      "Err ''not found''" "''b''" "[''a'']" 1, unfolded fo if_True, OF conjI, OF p nf]
  from s have w: "fst (snd (snd (submit ex_libs
     (NewRenderer (ex_client []) (ex_emb ''abc'') [WithForceOwnership]) 1 ''b'' [''a'']))) =
     [''b'', ''a'']"
    unfolding cr by auto
  from a(2)[rule_format, OF m] t[THEN conjunct2, THEN conjunct2, THEN mp, OF k] p cr w
  show ?thesis
    unfolding ex_apply_mixed_recorded prod.case ca by simp
qed

end
